theory Spec2Isabelle
  imports Complex_Main "HOL-Library.Sublist" "HOL-Library.Log_Nat"
begin

section \<open>Analytics derivation and batch pipeline of the tweet-sentiment dashboard\<close>

text \<open>
  The definitions below embed the pure parts of \<^verbatim>\<open>src/frontend/src/App.tsx\<close>:
  the derived analytics of the explorer view (\<^verbatim>\<open>entityScores\<close>,
  \<^verbatim>\<open>topPositiveEntities\<close>, \<^verbatim>\<open>topNegativeEntities\<close>, \<^verbatim>\<open>topEntitiesBar\<close>,
  \<^verbatim>\<open>explorerMix\<close>, \<^verbatim>\<open>sentimentIndex\<close>), the client-side row filters, the merge of
  uploaded CSV rows with predicted labels, and the rows handed to the CSV serializer.

  Modelling conventions.
  \<^item> A JavaScript \<^verbatim>\<open>number\<close> holding a count is an \<open>int\<close>. The source adds and
    subtracts counts as doubles: a sum or difference is the exact result rounded to the
    nearest double (\<open>roundDouble\<close>), which is the exact result up to magnitude \<open>2^53\<close>.
    The exponent range of a double is not modelled (sums stay below \<open>2^1024\<close>).
  \<^item> The result of a division is a \<open>jsnum\<close>: \<open>NaN\<close> or an infinity when the divisor is
    0, and otherwise \<open>Num q\<close> with \<open>q\<close> the exact quotient, the rational that the IEEE
    division of the source rounds (two quotients that round to one double stay distinct
    here).
  \<^item> A JavaScript \<^verbatim>\<open>Map\<close> is an association list in insertion order: \<^verbatim>\<open>set\<close> on
    a key that is present replaces the value where it stands, \<^verbatim>\<open>set\<close> on a new key
    appends.
  \<^item> \<^verbatim>\<open>Array.prototype.sort\<close> is a stable sort. With the comparator
    \<^verbatim>\<open>b.total - a.total\<close> on counts it is \<open>sort_key\<close> (stable insertion sort) on the
    negated key; with a comparator on quotients it is the stable insertion sort \<open>sortBy\<close>
    that leaves an element before another unless the comparator is positive.
  \<^item> Record fields are global names in Isabelle, so the fields of the response
    records carry a prefix (\<open>d_\<close>, \<open>m_\<close>, \<open>l_\<close>); the derived \<open>EntityScore\<close> keeps
    the names of the source.
  \<^item> Every derived value of the explorer is guarded by \<^verbatim>\<open>if (!explore) return ...\<close>;
    the response is therefore an \<open>option\<close>.
\<close>

subsection \<open>Server response (api.ts)\<close>

text \<open>The arrays of \<^verbatim>\<open>ExploreResponse\<close> that the typed derivations read. The sample and
  leaderboard rows of the grids pass through \<^verbatim>\<open>any\<close>-typed code and are objects, further
  below.\<close>

record DistributionEntry =
  d_sentiment :: string
  d_count :: int

record MixEntry =
  m_entity :: string
  m_sentiment :: string
  m_count :: int

record LeaderboardEntry =
  l_entity :: string
  mentions :: int

record ExploreResponse =
  distribution :: "DistributionEntry list"
  mix :: "MixEntry list"
  leaderboard :: "LeaderboardEntry list"

subsection \<open>JavaScript helpers\<close>

text \<open>\<^verbatim>\<open>map.set(k, v)\<close> on an insertion-ordered \<^verbatim>\<open>Map\<close>.\<close>

fun mapSet :: "'k \<Rightarrow> 'v \<Rightarrow> ('k \<times> 'v) list \<Rightarrow> ('k \<times> 'v) list" where
  "mapSet k v [] = [(k, v)]"
| "mapSet k v (p # ps) = (if fst p = k then (k, v) # ps else p # mapSet k v ps)"


text \<open>\<^verbatim>\<open>n || 1\<close> on a number: the only falsy integer is 0.\<close>

definition orOne :: "int \<Rightarrow> int" where
  "orOne n = (if n = 0 then 1 else n)"

subsection \<open>JavaScript numbers\<close>

text \<open>Rounding of an integer to the nearest double, ties to even: a double has a
  significand of 53 bits, so an integer of \<open>53 + k\<close> bits is rounded to a multiple of
  \<open>2^k\<close>.\<close>

definition ulp :: "int \<Rightarrow> int" where
  "ulp a = (if a < 2 ^ 53 then 1 else 2 ^ nat (bitlen a - 53))"

definition roundTo :: "int \<Rightarrow> int \<Rightarrow> int" where
  "roundTo u a =
     (let m = a div u; r = a mod u
      in if 2 * r < u \<or> (2 * r = u \<and> even m) then m * u else (m + 1) * u)"

definition roundDouble :: "int \<Rightarrow> int" where
  "roundDouble n = (if n < 0 then - roundTo (ulp (- n)) (- n) else roundTo (ulp n) n)"

text \<open>\<^verbatim>\<open>a + b\<close> and \<^verbatim>\<open>a - b\<close> on counts.\<close>

definition jsAdd :: "int \<Rightarrow> int \<Rightarrow> int" where
  "jsAdd a b = roundDouble (a + b)"

definition jsSub :: "int \<Rightarrow> int \<Rightarrow> int" where
  "jsSub a b = roundDouble (a - b)"

text \<open>The values of a division, and \<^verbatim>\<open>a / b\<close> on counts: \<^verbatim>\<open>0 / 0\<close> is \<^verbatim>\<open>NaN\<close>, another
  number divided by 0 is an infinity of its sign.\<close>

datatype jsnum = Num rat | NaN | PosInfinity | NegInfinity

definition jsDivide :: "int \<Rightarrow> int \<Rightarrow> jsnum" where
  "jsDivide a b =
     (if b = 0 then (if a = 0 then NaN else if 0 < a then PosInfinity else NegInfinity)
      else Num (of_int a / of_int b))"

subsection \<open>sentimentIndex\<close>




definition scenarioDistribution :: "DistributionEntry list" where
  "scenarioDistribution =
     [\<lparr>d_sentiment = ''Positive'', d_count = 60\<rparr>,
      \<lparr>d_sentiment = ''Negative'', d_count = 20\<rparr>,
      \<lparr>d_sentiment = ''Neutral'', d_count = 20\<rparr>]"


definition emptyExplore :: ExploreResponse where
  "emptyExplore = \<lparr>distribution = [], mix = [], leaderboard = []\<rparr>"

subsection \<open>entityScores\<close>

text \<open>The value type of the \<^verbatim>\<open>Map\<close> built by the loop, and the rows of the result:
  \<^verbatim>\<open>{ entity, ...v, total, positivity, negativity, score }\<close>.\<close>

record Counts =
  pos :: int
  neg :: int
  neu :: int

record EntityScore = Counts +
  entity :: string
  total :: int
  positivity :: jsnum
  negativity :: jsnum
  score :: jsnum

definition zeroCounts :: Counts where
  "zeroCounts = \<lparr>pos = 0, neg = 0, neu = 0\<rparr>"

text \<open>The three assignments of the loop body, in the order of the source.\<close>

definition setCounts :: "MixEntry \<Rightarrow> Counts \<Rightarrow> Counts" where
  "setCounts m row =
     (let r1 = (if m_sentiment m = ''Positive'' then row\<lparr>pos := m_count m\<rparr> else row);
          r2 = (if m_sentiment m = ''Negative'' then r1\<lparr>neg := m_count m\<rparr> else r1);
          r3 = (if m_sentiment m = ''Neutral'' then r2\<lparr>neu := m_count m\<rparr> else r2)
      in r3)"

text \<open>One iteration of \<^verbatim>\<open>for (const m of explore.mix)\<close>. The source inserts a fresh
  zero row when the entity is new, fetches the row and assigns into it in place; the row
  therefore ends where it stood, or at the end of the map when the entity was new, which
  is what \<open>mapSet\<close> does with the assigned row.\<close>

definition scoreStep :: "MixEntry \<Rightarrow> (string \<times> Counts) list \<Rightarrow> (string \<times> Counts) list" where
  "scoreStep m mp =
     (let row = (case map_of mp (m_entity m) of None \<Rightarrow> zeroCounts | Some r \<Rightarrow> r)
      in mapSet (m_entity m) (setCounts m row) mp)"

text \<open>The body of \<^verbatim>\<open>Array.from(map.entries()).map(([entity, v]) => ...)\<close>.\<close>

definition toScore :: "string \<times> Counts \<Rightarrow> EntityScore" where
  "toScore p =
     (let v = snd p;
          total = orOne (jsAdd (jsAdd (pos v) (neg v)) (neu v))
      in \<lparr>pos = pos v, neg = neg v, neu = neu v,
          entity = fst p, total = total,
          positivity = jsDivide (pos v) total,
          negativity = jsDivide (neg v) total,
          score = jsDivide (jsSub (pos v) (neg v)) total\<rparr>)"

definition entityScores :: "ExploreResponse option \<Rightarrow> EntityScore list" where
  "entityScores explore =
     (case explore of
        None \<Rightarrow> []
      | Some ex \<Rightarrow> sort_key (\<lambda>a. - total a) (map toScore (fold scoreStep (mix ex) [])))"

text \<open>The count that a mix array holds for an (entity, sentiment) pair: the count of the
  last entry of that pair in input order, and 0 when the pair does not occur.\<close>

definition lastCount :: "MixEntry list \<Rightarrow> string \<Rightarrow> string \<Rightarrow> int" where
  "lastCount ms e s =
     (let hits = filter (\<lambda>m. m_entity m = e \<and> m_sentiment m = s) ms
      in if hits = [] then 0 else m_count (last hits))"

text \<open>\<^verbatim>\<open>Array.from(new Set(xs))\<close>: the distinct elements in order of first occurrence.\<close>

definition setFromList :: "'a list \<Rightarrow> 'a list" where
  "setFromList xs = fold (\<lambda>x s. if x \<in> set s then s else s @ [x]) xs []"


text \<open>Inputs of the scenarios: one positive row for entity A; seven rows for four
  entities, not in the order of their totals, one of them with unrecognized sentiment
  values only; an entity whose counts sum to \<open>2^53 + 1\<close>,
  which is not a double; a mix with an unrecognized sentiment value.\<close>

definition scenarioMix :: "MixEntry list" where
  "scenarioMix = [\<lparr>m_entity = ''A'', m_sentiment = ''Positive'', m_count = 5\<rparr>]"

definition scenarioExplore :: ExploreResponse where
  "scenarioExplore = \<lparr>distribution = scenarioDistribution, mix = scenarioMix, leaderboard = []\<rparr>"

definition fourEntityMix :: "MixEntry list" where
  "fourEntityMix =
     [\<lparr>m_entity = ''A'', m_sentiment = ''Positive'', m_count = 1\<rparr>,
      \<lparr>m_entity = ''B'', m_sentiment = ''Positive'', m_count = 5\<rparr>,
      \<lparr>m_entity = ''A'', m_sentiment = ''Negative'', m_count = 3\<rparr>,
      \<lparr>m_entity = ''C'', m_sentiment = ''Irrelevant'', m_count = 7\<rparr>,
      \<lparr>m_entity = ''D'', m_sentiment = ''Irrelevant'', m_count = 6\<rparr>,
      \<lparr>m_entity = ''B'', m_sentiment = ''Neutral'', m_count = 4\<rparr>,
      \<lparr>m_entity = ''C'', m_sentiment = ''Negative'', m_count = 2\<rparr>]"



definition unknownMix :: "MixEntry list" where
  "unknownMix =
     [\<lparr>m_entity = ''B'', m_sentiment = ''Irrelevant'', m_count = 7\<rparr>,
      \<lparr>m_entity = ''A'', m_sentiment = ''Positive'', m_count = 1\<rparr>,
      \<lparr>m_entity = ''A'', m_sentiment = ''Negative'', m_count = 3\<rparr>]"

subsection \<open>topPositiveEntities, topNegativeEntities\<close>

text \<open>The comparators subtract two quotients: \<^verbatim>\<open>b.score - a.score\<close>. The difference of two
  numbers is kept exact (its sign is that of the double); an infinity minus itself and
  anything with \<^verbatim>\<open>NaN\<close> is \<^verbatim>\<open>NaN\<close>.\<close>

fun jsMinus :: "jsnum \<Rightarrow> jsnum \<Rightarrow> jsnum" where
  "jsMinus (Num p) (Num q) = Num (p - q)"
| "jsMinus NaN b = NaN"
| "jsMinus a NaN = NaN"
| "jsMinus PosInfinity PosInfinity = NaN"
| "jsMinus NegInfinity NegInfinity = NaN"
| "jsMinus PosInfinity b = PosInfinity"
| "jsMinus NegInfinity b = NegInfinity"
| "jsMinus (Num p) PosInfinity = NegInfinity"
| "jsMinus (Num p) NegInfinity = PosInfinity"

text \<open>A comparator result that is greater than 0 (\<^verbatim>\<open>NaN\<close> counts as 0).\<close>

fun positive :: "jsnum \<Rightarrow> bool" where
  "positive (Num q) = (0 < q)"
| "positive PosInfinity = True"
| "positive NaN = False"
| "positive NegInfinity = False"

text \<open>\<^verbatim>\<open>xs.sort(cmp)\<close>: stable, an element moves behind another only when the comparator
  of the two is positive.\<close>

fun insertBy :: "('a \<Rightarrow> 'a \<Rightarrow> jsnum) \<Rightarrow> 'a \<Rightarrow> 'a list \<Rightarrow> 'a list" where
  "insertBy cmp a [] = [a]"
| "insertBy cmp a (b # bs) = (if positive (cmp a b) then b # insertBy cmp a bs else a # b # bs)"

definition sortBy :: "('a \<Rightarrow> 'a \<Rightarrow> jsnum) \<Rightarrow> 'a list \<Rightarrow> 'a list" where
  "sortBy cmp xs = foldr (insertBy cmp) xs []"

text \<open>\<^verbatim>\<open>entityScores.slice(0, 20).sort(...).slice(0, 8)\<close>: \<^verbatim>\<open>slice\<close> copies, so the sort
  does not disturb \<^verbatim>\<open>entityScores\<close>. The comparator \<^verbatim>\<open>b.score - a.score\<close> orders by
  score descending, \<^verbatim>\<open>a.score - b.score\<close> ascending.\<close>

definition topPositiveEntities :: "EntityScore list \<Rightarrow> EntityScore list" where
  "topPositiveEntities es =
     take 8 (sortBy (\<lambda>a b. jsMinus (score b) (score a)) (take 20 es))"

definition topNegativeEntities :: "EntityScore list \<Rightarrow> EntityScore list" where
  "topNegativeEntities es =
     take 8 (sortBy (\<lambda>a b. jsMinus (score a) (score b)) (take 20 es))"

text \<open>\<^verbatim>\<open>a <= b\<close> on quotients, to state the order of the rankings, and the rational of a
  quotient that is a number.\<close>

fun jsLe :: "jsnum \<Rightarrow> jsnum \<Rightarrow> bool" where
  "jsLe (Num p) (Num q) = (p \<le> q)"
| "jsLe NaN b = False"
| "jsLe a NaN = False"
| "jsLe NegInfinity b = True"
| "jsLe a PosInfinity = True"
| "jsLe PosInfinity b = False"
| "jsLe a NegInfinity = False"

fun numOf :: "jsnum \<Rightarrow> rat" where
  "numOf (Num q) = q"
| "numOf a = 0"

subsection \<open>topEntitiesBar\<close>

text \<open>The series \<^verbatim>\<open>{ labels, values }\<close>; \<open>values\<close> is a keyword of Isabelle, hence the
  prefix.\<close>

record Bar =
  bar_labels :: "string list"
  bar_values :: "int list"

definition topEntitiesBar :: "ExploreResponse option \<Rightarrow> Bar" where
  "topEntitiesBar explore =
     (case explore of
        None \<Rightarrow> \<lparr>bar_labels = [], bar_values = []\<rparr>
      | Some ex \<Rightarrow>
          \<lparr>bar_labels = map l_entity (take 10 (leaderboard ex)),
           bar_values = map mentions (take 10 (leaderboard ex))\<rparr>)"

text \<open>In the words of the specification: the 10 entities with the largest mentions
  values, all of them when fewer than 10 exist.\<close>

definition topMentions :: "LeaderboardEntry list \<Rightarrow> LeaderboardEntry list" where
  "topMentions lb = take 10 (sort_key (\<lambda>r. - mentions r) lb)"

text \<open>A leaderboard whose eleventh row has the most mentions.\<close>

definition unrankedLeaderboard :: "LeaderboardEntry list" where
  "unrankedLeaderboard =
     [\<lparr>l_entity = ''a'', mentions = 1\<rparr>, \<lparr>l_entity = ''b'', mentions = 1\<rparr>,
      \<lparr>l_entity = ''c'', mentions = 1\<rparr>, \<lparr>l_entity = ''d'', mentions = 1\<rparr>,
      \<lparr>l_entity = ''e'', mentions = 1\<rparr>, \<lparr>l_entity = ''f'', mentions = 1\<rparr>,
      \<lparr>l_entity = ''g'', mentions = 1\<rparr>, \<lparr>l_entity = ''h'', mentions = 1\<rparr>,
      \<lparr>l_entity = ''i'', mentions = 1\<rparr>, \<lparr>l_entity = ''j'', mentions = 1\<rparr>,
      \<lparr>l_entity = ''k'', mentions = 5\<rparr>]"

definition rankedLeaderboard :: "LeaderboardEntry list" where
  "rankedLeaderboard =
     [\<lparr>l_entity = ''k'', mentions = 5\<rparr>, \<lparr>l_entity = ''a'', mentions = 1\<rparr>]"

subsection \<open>explorerMix\<close>

text \<open>The stacked series \<^verbatim>\<open>{ x, neg, neu, pos }\<close> (prefixed: \<open>pos\<close>, \<open>neg\<close> and \<open>neu\<close> are
  fields of \<open>Counts\<close> already, and a field \<open>x\<close> would capture the variable of that name). An element of a series is \<open>None\<close> where the source would
  read \<^verbatim>\<open>undefined\<close> from a record without that class.\<close>

record MixSeries =
  s_x :: "string list"
  s_neg :: "int option list"
  s_neu :: "int option list"
  s_pos :: "int option list"

text \<open>\<^verbatim>\<open>{ Negative: 0, Neutral: 0, Positive: 0 }\<close>, a \<^verbatim>\<open>Record<string, number>\<close>.\<close>

definition freshRecord :: "(string \<times> int) list" where
  "freshRecord = [(''Negative'', 0), (''Neutral'', 0), (''Positive'', 0)]"

text \<open>\<^verbatim>\<open>explore.mix.forEach((m) => (map.get(m.entity)![m.sentiment] = m.count))\<close>. The
  assignment goes through \<^verbatim>\<open>map.get(m.entity)!\<close>: on an entity without a record the
  source throws a TypeError, here \<open>None\<close>.\<close>

fun mixAssign ::
  "MixEntry list \<Rightarrow> (string \<times> (string \<times> int) list) list
     \<Rightarrow> (string \<times> (string \<times> int) list) list option" where
  "mixAssign [] mp = Some mp"
| "mixAssign (m # ms) mp =
     (case map_of mp (m_entity m) of
        None \<Rightarrow> None
      | Some r \<Rightarrow> mixAssign ms (mapSet (m_entity m) (mapSet (m_sentiment m) (m_count m) r) mp))"

text \<open>\<^verbatim>\<open>entities.map((e) => map.get(e)!.K)\<close> for a class \<open>K\<close>; \<open>None\<close> for the TypeError of
  an entity without a record.\<close>

fun readSeries ::
  "string \<Rightarrow> (string \<times> (string \<times> int) list) list \<Rightarrow> string list \<Rightarrow> int option list option" where
  "readSeries k mp [] = Some []"
| "readSeries k mp (e # es) =
     (case map_of mp e of
        None \<Rightarrow> None
      | Some r \<Rightarrow> (case readSeries k mp es of None \<Rightarrow> None | Some vs \<Rightarrow> Some (map_of r k # vs)))"

definition explorerMix :: "ExploreResponse option \<Rightarrow> MixSeries option" where
  "explorerMix explore =
     (case explore of
        None \<Rightarrow> Some \<lparr>s_x = [], s_neg = [], s_neu = [], s_pos = []\<rparr>
      | Some ex \<Rightarrow>
          (let entities = setFromList (map m_entity (mix ex));
               map0 = fold (\<lambda>e mp. mapSet e freshRecord mp) entities []
           in case mixAssign (mix ex) map0 of
                None \<Rightarrow> None
              | Some mp \<Rightarrow>
                  (case readSeries ''Negative'' mp entities of
                     None \<Rightarrow> None
                   | Some ng \<Rightarrow>
                       (case readSeries ''Neutral'' mp entities of
                          None \<Rightarrow> None
                        | Some nu \<Rightarrow>
                            (case readSeries ''Positive'' mp entities of
                               None \<Rightarrow> None
                             | Some ps \<Rightarrow>
                                 Some \<lparr>s_x = entities, s_neg = ng, s_neu = nu, s_pos = ps\<rparr>)))))"

text \<open>\<^verbatim>\<open>map.get(e)?.[k]\<close>, the class count of an entity in the nested map (used to state
  what the loop leaves in it).\<close>

definition lookup2 :: "(string \<times> (string \<times> int) list) list \<Rightarrow> string \<Rightarrow> string \<Rightarrow> int option" where
  "lookup2 mp e k = (case map_of mp e of None \<Rightarrow> None | Some r \<Rightarrow> map_of r k)"

text \<open>A mix that repeats the pair (A, Positive).\<close>

definition repeatedMix :: "MixEntry list" where
  "repeatedMix =
     [\<lparr>m_entity = ''A'', m_sentiment = ''Positive'', m_count = 3\<rparr>,
      \<lparr>m_entity = ''B'', m_sentiment = ''Neutral'', m_count = 4\<rparr>,
      \<lparr>m_entity = ''A'', m_sentiment = ''Positive'', m_count = 9\<rparr>,
      \<lparr>m_entity = ''A'', m_sentiment = ''Negative'', m_count = 2\<rparr>]"

subsection \<open>JavaScript values, objects and strings\<close>

text \<open>The values that occur in rows: rows of the server response are JSON objects, rows
  of an uploaded CSV hold strings, and the merge adds a number. Numbers are integers here
  (identifiers and counts). An object is a finite map from property names to values; the
  order of its keys is not modelled.\<close>

datatype jsval = JUndefined | JNull | JBool bool | JNum int | JStr string

type_synonym obj = "string \<rightharpoonup> jsval"

text \<open>\<^verbatim>\<open>r.k\<close>: a missing property reads as \<^verbatim>\<open>undefined\<close>.\<close>

definition getProp :: "obj \<Rightarrow> string \<Rightarrow> jsval" where
  "getProp r k = (case r k of None \<Rightarrow> JUndefined | Some v \<Rightarrow> v)"

text \<open>Truthiness: \<^verbatim>\<open>undefined\<close>, \<^verbatim>\<open>null\<close>, \<^verbatim>\<open>false\<close>, \<^verbatim>\<open>0\<close> and \<^verbatim>\<open>""\<close> are falsy.\<close>

fun truthy :: "jsval \<Rightarrow> bool" where
  "truthy JUndefined = False"
| "truthy JNull = False"
| "truthy (JBool b) = b"
| "truthy (JNum n) = (n \<noteq> 0)"
| "truthy (JStr s) = (s \<noteq> [])"

text \<open>The decimal digits of a natural number, and \<^verbatim>\<open>String(v)\<close>. Integers are printed
  in full, as the source prints them below \<open>10^21\<close>.\<close>

fun digitsOf :: "nat \<Rightarrow> string" where
  "digitsOf n =
     (if n < 10 then [char_of (48 + n)] else digitsOf (n div 10) @ [char_of (48 + n mod 10)])"

declare digitsOf.simps [simp del]

fun jsString :: "jsval \<Rightarrow> string" where
  "jsString JUndefined = ''undefined''"
| "jsString JNull = ''null''"
| "jsString (JBool b) = (if b then ''true'' else ''false'')"
| "jsString (JNum n) = (if n < 0 then CHR ''-'' # digitsOf (nat (- n)) else digitsOf (nat n))"
| "jsString (JStr s) = s"

text \<open>\<^verbatim>\<open>String(v || "")\<close>.\<close>

definition stringOrEmpty :: "jsval \<Rightarrow> string" where
  "stringOrEmpty v = jsString (if truthy v then v else JStr [])"

text \<open>\<^verbatim>\<open>toLowerCase\<close> and \<^verbatim>\<open>trim\<close> on ASCII text: the letters A to Z are lowered, the
  white space is tab, line feed, vertical tab, form feed, carriage return and space.
  Letters and white space outside ASCII are left as they are.\<close>

definition lowerChar :: "char \<Rightarrow> char" where
  "lowerChar c = (let n = (of_char c :: nat) in if 65 \<le> n \<and> n \<le> 90 then char_of (n + 32) else c)"

definition toLowerCase :: "string \<Rightarrow> string" where
  "toLowerCase s = map lowerChar s"

definition isWhiteSpace :: "char \<Rightarrow> bool" where
  "isWhiteSpace c = (let n = (of_char c :: nat) in (9 \<le> n \<and> n \<le> 13) \<or> n = 32)"

definition trim :: "string \<Rightarrow> string" where
  "trim s = rev (dropWhile isWhiteSpace (rev (dropWhile isWhiteSpace s)))"

text \<open>\<^verbatim>\<open>s.includes(q)\<close>: \<open>q\<close> starts at some position of \<open>s\<close> (\<open>includes\<close> is a
  keyword of Isabelle, hence the prefix).\<close>

fun jsIncludes :: "string \<Rightarrow> string \<Rightarrow> bool" where
  "jsIncludes [] q = (q = [])"
| "jsIncludes (c # cs) q = (prefix q (c # cs) \<or> jsIncludes cs q)"

subsection \<open>filteredSampleRows, filteredLeaderboardRows\<close>

text \<open>\<^verbatim>\<open>String(r.k || "").toLowerCase().includes(q)\<close>.\<close>

definition fieldIncludes :: "obj \<Rightarrow> string \<Rightarrow> string \<Rightarrow> bool" where
  "fieldIncludes r k q = jsIncludes (toLowerCase (stringOrEmpty (getProp r k))) q"

definition filteredSampleRows :: "obj list \<Rightarrow> string \<Rightarrow> obj list" where
  "filteredSampleRows sampleRows localSearch =
     (if sampleRows = [] then sampleRows
      else let q = toLowerCase (trim localSearch)
           in if q = [] then sampleRows
              else filter (\<lambda>r. fieldIncludes r ''text'' q \<or> fieldIncludes r ''entity'' q
                              \<or> fieldIncludes r ''sentiment'' q \<or> fieldIncludes r ''tweet_id'' q)
                     sampleRows)"

definition filteredLeaderboardRows :: "obj list \<Rightarrow> string \<Rightarrow> obj list" where
  "filteredLeaderboardRows leaderboardRows localSearch =
     (if leaderboardRows = [] then leaderboardRows
      else let q = toLowerCase (trim localSearch)
           in if q = [] then leaderboardRows
              else filter (\<lambda>r. fieldIncludes r ''entity'' q) leaderboardRows)"

text \<open>In the words of the specification: the text of a field (nothing for a field that is
  missing or null), and containment of the query as a case-insensitive substring.\<close>

fun fieldText :: "jsval \<Rightarrow> string" where
  "fieldText JUndefined = []"
| "fieldText JNull = []"
| "fieldText v = jsString v"

definition containsCI :: "string \<Rightarrow> string \<Rightarrow> bool" where
  "containsCI s q = sublist (toLowerCase q) (toLowerCase s)"

text \<open>A sample row whose tweet identifier is the number 0, and one whose identifier is
  2401.\<close>

definition sampleZero :: obj where
  "sampleZero = [''id'' \<mapsto> JNum 1, ''tweet_id'' \<mapsto> JNum 0, ''entity'' \<mapsto> JStr ''Google'',
                 ''sentiment'' \<mapsto> JStr ''Positive'', ''text'' \<mapsto> JStr ''hello'']"

definition sampleOne :: obj where
  "sampleOne = [''id'' \<mapsto> JNum 2, ''tweet_id'' \<mapsto> JNum 2401, ''entity'' \<mapsto> JStr ''Amazon'',
                ''sentiment'' \<mapsto> JStr ''Negative'', ''text'' \<mapsto> JStr ''Slow Delivery'']"

subsection \<open>onBatchFile\<close>

text \<open>A row of the uploaded CSV as \<^verbatim>\<open>Papa.parse\<close> with \<^verbatim>\<open>header: true\<close> delivers it: a
  mapping from column names to strings.\<close>

type_synonym csvRow = "string \<rightharpoonup> string"

text \<open>\<^verbatim>\<open>r && r.text\<close>: the row has a \<^verbatim>\<open>text\<close> column that is not the empty string.\<close>

definition hasText :: "csvRow \<Rightarrow> bool" where
  "hasText r = (case r ''text'' of None \<Rightarrow> False | Some s \<Rightarrow> s \<noteq> [])"

text \<open>\<^verbatim>\<open>String(r.text)\<close>.\<close>

definition textOf :: "csvRow \<Rightarrow> string" where
  "textOf r = (case r ''text'' of None \<Rightarrow> ''undefined'' | Some s \<Rightarrow> s)"

text \<open>\<^verbatim>\<open>sentiments[i]\<close>: reading past the end of an array gives \<^verbatim>\<open>undefined\<close>.\<close>

definition sentimentAt :: "string list \<Rightarrow> nat \<Rightarrow> jsval" where
  "sentimentAt sentiments i = (if i < length sentiments then JStr (sentiments ! i) else JUndefined)"

text \<open>The own properties that \<^verbatim>\<open>...row\<close> copies.\<close>

definition spread :: "csvRow \<Rightarrow> obj" where
  "spread row = (\<lambda>k. map_option JStr (row k))"

text \<open>\<^verbatim>\<open>{ id: i + 1, ...row, predicted_sentiment: sentiments[i] }\<close>: a later property of an
  object literal replaces an earlier one of the same name.\<close>

definition mergeRow :: "string list \<Rightarrow> nat \<Rightarrow> csvRow \<Rightarrow> obj" where
  "mergeRow sentiments i row =
     ([''id'' \<mapsto> JNum (int i + 1)] ++ spread row)
       (''predicted_sentiment'' \<mapsto> sentimentAt sentiments i)"

text \<open>The \<^verbatim>\<open>complete\<close> callback of \<^verbatim>\<open>onBatchFile\<close>, as the final value of the state
  \<^verbatim>\<open>batchPredRows\<close>. The request to \<^verbatim>\<open>/batch_predict\<close> is the parameter \<open>batchPredict\<close>;
  \<open>None\<close> is a rejected request, which leaves the state at the \<^verbatim>\<open>[]\<close> set on entry.\<close>

definition onBatchFile :: "(string list \<Rightarrow> string list option) \<Rightarrow> csvRow list \<Rightarrow> obj list" where
  "onBatchFile batchPredict resultsData =
     (let rows = filter hasText resultsData;
          texts = map textOf rows
      in case batchPredict texts of
           None \<Rightarrow> []
         | Some sentiments \<Rightarrow> map (\<lambda>(i, row). mergeRow sentiments i row) (enumerate 0 rows))"

subsection \<open>downloadCSV, downloadFilteredSamplesCsv\<close>

text \<open>\<^verbatim>\<open>({ id, ...rest }) => rest\<close>.\<close>

definition withoutId :: "obj \<Rightarrow> obj" where
  "withoutId r = r(''id'' := None)"

text \<open>The text handed to the \<^verbatim>\<open>Blob\<close>; the serializer \<^verbatim>\<open>Papa.unparse\<close> is a parameter.\<close>

definition downloadCSV :: "(obj list \<Rightarrow> 'csv) \<Rightarrow> obj list \<Rightarrow> 'csv" where
  "downloadCSV unparse batchPredRows = unparse (map withoutId batchPredRows)"

definition downloadFilteredSamplesCsv :: "(obj list \<Rightarrow> 'csv) \<Rightarrow> obj list \<Rightarrow> string \<Rightarrow> 'csv" where
  "downloadFilteredSamplesCsv unparse sampleRows localSearch =
     unparse (map withoutId (filteredSampleRows sampleRows localSearch))"

text \<open>An upload with its own \<^verbatim>\<open>id\<close> and \<^verbatim>\<open>predicted_sentiment\<close> columns, one without, and a
  predictor that answers every request with the same labels.\<close>

definition uploadWithId :: "csvRow list" where
  "uploadWithId =
     [[''text'' \<mapsto> ''hi'', ''id'' \<mapsto> ''7'', ''predicted_sentiment'' \<mapsto> ''old''],
      [''text'' \<mapsto> [], ''id'' \<mapsto> ''8''],
      [''text'' \<mapsto> ''bye'']]"

definition fixedPredict :: "string list \<Rightarrow> string list option" where
  "fixedPredict texts = Some [''Positive'', ''Negative'']"

section \<open>Properties\<close>

subsection \<open>Insertion-ordered maps\<close>

lemma map_of_mapSet: "map_of (mapSet k v ps) = (map_of ps)(k \<mapsto> v)"
  by (induction ps) (auto simp: fun_eq_iff)

lemma keys_mapSet:
  "map fst (mapSet k v ps) = (if k \<in> fst ` set ps then map fst ps else map fst ps @ [k])"
  by (induction ps) auto

subsection \<open>Rounding to a double\<close>

lemma ulp_pos: "0 < ulp a"
  by (simp add: ulp_def)

lemma ulp_small: "a < 2 ^ 53 \<Longrightarrow> ulp a = 1"
  by (simp add: ulp_def)

lemma roundTo_one: "roundTo 1 a = a"
  by (simp add: roundTo_def)

lemma roundTo_lower: "0 < u \<Longrightarrow> (a div u) * u \<le> roundTo u a"
  by (simp add: roundTo_def Let_def)

lemma roundTo_upper: "0 < u \<Longrightarrow> roundTo u a \<le> (a div u + 1) * u"
  by (simp add: roundTo_def Let_def)

lemma roundTo_dvd: "0 < u \<Longrightarrow> u dvd a \<Longrightarrow> roundTo u a = a"
  by (auto simp: roundTo_def Let_def)

lemma roundTo_mono:
  assumes u: "0 < u" and ab: "a \<le> b"
  shows "roundTo u a \<le> roundTo u b"
proof (cases "a div u < b div u")
  case True
  then have "a div u + 1 \<le> b div u" by simp
  then have "(a div u + 1) * u \<le> (b div u) * u" using u by (simp add: mult_right_mono)
  then show ?thesis using roundTo_upper [OF u, of a] roundTo_lower [OF u, of b] by linarith
next
  case False
  have "a div u \<le> b div u" using ab u by (simp add: zdiv_mono1)
  then have eq: "a div u = b div u" using False by simp
  have "a = (a div u) * u + a mod u" "b = (b div u) * u + b mod u" by simp_all
  then have "a mod u \<le> b mod u" using ab eq by (metis add_le_cancel_left)
  then show ?thesis using u by (auto simp: roundTo_def Let_def eq)
qed

lemma div_mult_le_self: "0 < u \<Longrightarrow> (a div u) * u \<le> (a::int)"
proof -
  assume u: "0 < u"
  have "a = (a div u) * u + a mod u" by simp
  moreover have "0 \<le> a mod u" using u by simp
  ultimately show ?thesis by linarith
qed

lemma div_less_bound:
  assumes "(a::int) < k * u" and "0 < u"
  shows "a div u < k"
proof (rule ccontr)
  assume "\<not> a div u < k"
  then have "k \<le> a div u" by simp
  then have "k * u \<le> (a div u) * u" using assms(2) by (simp add: mult_right_mono)
  then show False using div_mult_le_self [OF assms(2), of a] assms(1) by linarith
qed

lemma div_ge_bound:
  assumes "k * u \<le> (a::int)" and "0 < u"
  shows "k \<le> a div u"
proof -
  have "(k * u) div u \<le> a div u" using assms by (intro zdiv_mono1)
  then show ?thesis using assms(2) by simp
qed

lemma ulp_bounds:
  assumes "0 \<le> a"
  shows "a < 2 ^ 53 * ulp a" and "2 ^ 53 \<le> a \<Longrightarrow> 2 ^ 52 * ulp a \<le> a"
proof -
  show "a < 2 ^ 53 * ulp a"
  proof (cases "a < 2 ^ 53")
    case True
    then show ?thesis by (simp add: ulp_def)
  next
    case False
    then have p: "0 < a" by simp
    have b: "53 \<le> bitlen a" using False by (simp add: bitlen_ge_iff_power)
    have "a < 2 ^ nat (bitlen a)" using bitlen_bounds [OF p] by simp
    also have "nat (bitlen a) = 53 + nat (bitlen a - 53)" using b by simp
    finally show ?thesis using False by (simp add: ulp_def power_add)
  qed
  show "2 ^ 52 * ulp a \<le> a" if "2 ^ 53 \<le> a"
  proof -
    from that have p: "0 < a" by simp
    have b: "53 \<le> bitlen a" using that by (simp add: bitlen_ge_iff_power)
    have "2 ^ nat (bitlen a - 1) \<le> a" using bitlen_bounds [OF p] by simp
    moreover have "nat (bitlen a - 1) = 52 + nat (bitlen a - 53)" using b by simp
    ultimately show ?thesis using that by (simp add: ulp_def power_add)
  qed
qed

lemma ulp_mono_cases:
  assumes "0 \<le> a" "a \<le> b"
  shows "ulp a = ulp b \<or> 2 * ulp a \<le> ulp b"
proof (cases "b < 2 ^ 53")
  case True
  then show ?thesis using assms by (simp add: ulp_def)
next
  case False
  show ?thesis
  proof (cases "a < 2 ^ 53")
    case True
    have "54 \<le> bitlen b" using False by (simp add: bitlen_ge_iff_power)
    then have "1 \<le> nat (bitlen b - 53)" by simp
    then have "(2::int) ^ 1 \<le> 2 ^ nat (bitlen b - 53)" by (intro power_increasing) simp_all
    then show ?thesis using True False by (simp add: ulp_def)
  next
    case F2: False
    have "0 < b" using F2 assms by simp
    then have "b < 2 ^ nat (bitlen b)" using bitlen_bounds by blast
    then have "a < 2 ^ nat (bitlen b)" using assms(2) by simp
    then have "bitlen a \<le> bitlen b"
      by (simp add: bitlen_le_iff_power bitlen_nonneg)
    then have "nat (bitlen a - 53) = nat (bitlen b - 53) \<or> nat (bitlen a - 53) + 1 \<le> nat (bitlen b - 53)"
      by linarith
    then show ?thesis
    proof
      assume "nat (bitlen a - 53) = nat (bitlen b - 53)"
      then show ?thesis using False F2 by (simp add: ulp_def)
    next
      assume "nat (bitlen a - 53) + 1 \<le> nat (bitlen b - 53)"
      then have "(2::int) ^ (nat (bitlen a - 53) + 1) \<le> 2 ^ nat (bitlen b - 53)"
        by (intro power_increasing) simp_all
      then show ?thesis using False F2 by (simp add: ulp_def)
    qed
  qed
qed

lemma roundDouble_mono_nonneg:
  assumes "0 \<le> a" "a \<le> b"
  shows "roundDouble a \<le> roundDouble b"
proof -
  have b0: "0 \<le> b" using assms by simp
  from ulp_mono_cases [OF assms] show ?thesis
  proof
    assume "ulp a = ulp b"
    then show ?thesis
      using roundTo_mono [OF ulp_pos assms(2), of b] assms b0 by (simp add: roundDouble_def)
  next
    assume d: "2 * ulp a \<le> ulp b"
    then have nb: "\<not> b < 2 ^ 53" using ulp_pos [of a] by (auto simp: ulp_def split: if_splits)
    have "a div ulp a < 2 ^ 53"
      using ulp_bounds(1) [OF assms(1)] ulp_pos [of a] by (rule div_less_bound)
    then have "(a div ulp a + 1) * ulp a \<le> 2 ^ 53 * ulp a"
      using ulp_pos [of a] by (simp add: mult_right_mono)
    then have 1: "roundTo (ulp a) a \<le> 2 ^ 53 * ulp a"
      using roundTo_upper [OF ulp_pos, of a a] by linarith
    have "2 ^ 52 * ulp b \<le> b" using ulp_bounds(2) [OF b0] nb by simp
    then have "2 ^ 52 \<le> b div ulp b"
      using ulp_pos [of b] by (rule div_ge_bound)
    then have "2 ^ 52 * ulp b \<le> (b div ulp b) * ulp b"
      using ulp_pos [of b] by (simp add: mult_right_mono)
    then have 2: "2 ^ 52 * ulp b \<le> roundTo (ulp b) b"
      using roundTo_lower [OF ulp_pos, of b b] by linarith
    have "(2::int) ^ 53 * ulp a = 2 ^ 52 * (2 * ulp a)" by simp
    also have "\<dots> \<le> 2 ^ 52 * ulp b" using d by (intro mult_left_mono) simp_all
    finally show ?thesis using 1 2 assms b0 by (simp add: roundDouble_def)
  qed
qed


lemma bitlen_eqI:
  assumes "2 ^ w \<le> x" and "x < 2 ^ Suc w"
  shows "bitlen x = int w + 1"
proof (rule antisym)
  have "nat (int w + 1) = Suc w" by simp
  then show "bitlen x \<le> int w + 1" using assms(2) by (simp only: bitlen_le_iff_power) simp
  have "nat (int w + 1) - 1 = w" by simp
  then show "int w + 1 \<le> bitlen x" using assms(1) by (simp only: bitlen_ge_iff_power) simp
qed

lemma roundDouble_exact: "\<bar>n\<bar> \<le> 2 ^ 53 \<Longrightarrow> roundDouble n = n"
proof -
  assume a: "\<bar>n\<bar> \<le> 2 ^ 53"
  have e: "roundTo (ulp m) m = m" if "0 \<le> m" "m \<le> 2 ^ 53" for m
  proof (cases "m < 2 ^ 53")
    case True
    then show ?thesis by (simp add: ulp_small roundTo_one)
  next
    case False
    then have m: "m = 2 ^ 53" using that by simp
    have "bitlen m = int 53 + 1" using m by (intro bitlen_eqI) simp_all
    then have "bitlen m = 54" by simp
    then have "ulp m = 2" using m by (simp add: ulp_def)
    then show ?thesis using m by (simp add: roundTo_def)
  qed
  show ?thesis using a e [of n] e [of "- n"] by (simp add: roundDouble_def)
qed

lemma roundDouble_minus: "roundDouble (- n) = - roundDouble n"
  by (cases "n = 0") (auto simp: roundDouble_def roundTo_def ulp_def)

lemma roundDouble_nonneg: "0 \<le> n \<Longrightarrow> 0 \<le> roundDouble n"
  using roundDouble_mono_nonneg [of 0 n] roundDouble_exact [of 0] by simp

lemma roundDouble_pos: "0 < n \<Longrightarrow> 0 < roundDouble n"
  using roundDouble_mono_nonneg [of 1 n] roundDouble_exact [of 1] by simp

lemma roundDouble_zero_iff: "roundDouble n = 0 \<longleftrightarrow> n = 0"
proof
  assume z: "roundDouble n = 0"
  show "n = 0"
  proof (rule ccontr)
    assume "n \<noteq> 0"
    then consider "0 < n" | "0 < - n" by linarith
    then show False
    proof cases
      case 1
      then show False using roundDouble_pos [of n] z by simp
    next
      case 2
      then show False using roundDouble_pos [of "- n"] z by (simp add: roundDouble_minus)
    qed
  qed
next
  assume "n = 0"
  then show "roundDouble n = 0" using roundDouble_exact [of 0] by simp
qed

lemma roundDouble_mono: "a \<le> b \<Longrightarrow> roundDouble a \<le> roundDouble b"
proof -
  assume ab: "a \<le> b"
  consider "0 \<le> a" | "a < 0" "0 \<le> b" | "b < 0" using ab by linarith
  then show ?thesis
  proof cases
    case 1
    then show ?thesis using ab by (rule roundDouble_mono_nonneg)
  next
    case 2
    have "0 \<le> roundDouble (- a)" using 2 by (intro roundDouble_nonneg) simp
    moreover have "0 \<le> roundDouble b" using 2 by (intro roundDouble_nonneg)
    ultimately show ?thesis by (simp add: roundDouble_minus)
  next
    case 3
    have "roundDouble (- b) \<le> roundDouble (- a)"
      using 3 ab by (intro roundDouble_mono_nonneg) simp_all
    then show ?thesis by (simp add: roundDouble_minus)
  qed
qed

lemma roundDouble_idem_nonneg:
  assumes "0 \<le> a"
  shows "roundDouble (roundDouble a) = roundDouble a"
proof (cases "a < 2 ^ 53")
  case True
  then show ?thesis using assms by (simp add: roundDouble_exact)
next
  case False
  let ?u = "ulp a"
  let ?v = "roundTo ?u a"
  have v: "roundDouble a = ?v" using assms by (simp add: roundDouble_def)
  have up: "0 < ?u" by (rule ulp_pos)
  have dv: "?u dvd ?v" by (simp add: roundTo_def Let_def)
  have lo: "2 ^ 52 * ?u \<le> ?v"
  proof -
    have "2 ^ 52 * ?u \<le> a" using ulp_bounds(2) [OF assms] False by simp
    then have "2 ^ 52 \<le> a div ?u" using up by (rule div_ge_bound)
    then have "2 ^ 52 * ?u \<le> (a div ?u) * ?u" using up by (simp add: mult_right_mono)
    then show ?thesis using roundTo_lower [OF up, of a] by linarith
  qed
  have hi: "?v \<le> 2 ^ 53 * ?u"
  proof -
    have "a div ?u < 2 ^ 53" using ulp_bounds(1) [OF assms] up by (rule div_less_bound)
    then have "(a div ?u + 1) * ?u \<le> 2 ^ 53 * ?u" using up by (simp add: mult_right_mono)
    then show ?thesis using roundTo_upper [OF up, of a] by linarith
  qed
  have v0: "0 \<le> ?v" using lo up by (smt (verit) mult_nonneg_nonneg zero_le_power)
  have uu: "?u = 2 ^ nat (bitlen a - 53)" using False by (simp add: ulp_def)
  have big: "2 ^ 53 \<le> ?v"
  proof -
    have "(1::int) \<le> ?u" using up by simp
    then have "(2::int) ^ 52 * 2 \<le> 2 ^ 52 * (2 * ?u)" by simp
    moreover have "2 \<le> ?u"
    proof -
      have "54 \<le> bitlen a" using False by (simp add: bitlen_ge_iff_power)
      then have "1 \<le> nat (bitlen a - 53)" by simp
      then have "(2::int) ^ 1 \<le> 2 ^ nat (bitlen a - 53)" by (intro power_increasing) simp_all
      then show ?thesis using uu by simp
    qed
    ultimately show ?thesis using lo by simp
  qed
  have ba: "53 \<le> bitlen a" using False by (simp add: bitlen_ge_iff_power)
  define k where "k = nat (bitlen a - 53)"
  have uk: "?u = 2 ^ k" using uu by (simp add: k_def)
  have "ulp ?v dvd ?v"
  proof (cases "?v < 2 ^ 53 * ?u")
    case True
    have "2 ^ (52 + k) \<le> ?v" using lo uk by (simp add: power_add)
    moreover have "?v < 2 ^ Suc (52 + k)" using True uk by (simp add: power_add)
    ultimately have "bitlen ?v = int (52 + k) + 1" by (rule bitlen_eqI)
    then have "nat (bitlen ?v - 53) = k" by simp
    then have "ulp ?v = ?u" using big uk by (simp add: ulp_def)
    then show ?thesis using dv by simp
  next
    case F: False
    then have e: "?v = 2 ^ 53 * ?u" using hi by simp
    then have e2: "?v = 2 ^ (53 + k)" using uk by (simp add: power_add)
    have "bitlen ?v = int (53 + k) + 1" unfolding e2 by (intro bitlen_eqI) simp_all
    then have "nat (bitlen ?v - 53) = Suc k" by simp
    then have "ulp ?v = 2 * ?u" using big uk by (simp add: ulp_def)
    moreover have "2 * ?u dvd ?v" using e by simp
    ultimately show ?thesis by simp
  qed
  then have "roundTo (ulp ?v) ?v = ?v" by (intro roundTo_dvd ulp_pos)
  then show ?thesis using v v0 by (simp add: roundDouble_def)
qed

lemma roundDouble_idem: "roundDouble (roundDouble a) = roundDouble a"
proof (cases "0 \<le> a")
  case True
  then show ?thesis by (rule roundDouble_idem_nonneg)
next
  case False
  then have "roundDouble (roundDouble (- a)) = roundDouble (- a)"
    by (intro roundDouble_idem_nonneg) simp
  then show ?thesis by (simp add: roundDouble_minus)
qed


lemma jsAdd_exact: "\<bar>a + b\<bar> \<le> 2 ^ 53 \<Longrightarrow> jsAdd a b = a + b"
  by (simp add: jsAdd_def roundDouble_exact)

lemma jsSub_exact: "\<bar>a - b\<bar> \<le> 2 ^ 53 \<Longrightarrow> jsSub a b = a - b"
  by (simp add: jsSub_def roundDouble_exact)

lemma jsAdd_nonneg: "0 \<le> a \<Longrightarrow> 0 \<le> b \<Longrightarrow> 0 \<le> jsAdd a b"
  by (simp add: jsAdd_def roundDouble_nonneg)

lemma jsAdd_zero_iff: "0 \<le> a \<Longrightarrow> 0 \<le> b \<Longrightarrow> jsAdd a b = 0 \<longleftrightarrow> a = 0 \<and> b = 0"
  by (auto simp: jsAdd_def roundDouble_zero_iff)

text \<open>The difference of two of three non-negative counts is bounded by the sum of the
  three, also after rounding.\<close>

lemma jsSub_le_sum_first:
  assumes "0 \<le> a" "0 \<le> b" "0 \<le> c"
  shows "\<bar>jsSub a b\<bar> \<le> jsAdd (jsAdd a b) c"
proof -
  have 1: "roundDouble (a - b) \<le> roundDouble (a + b)"
    using assms by (intro roundDouble_mono) simp
  have "roundDouble (b - a) \<le> roundDouble (a + b)"
    using assms by (intro roundDouble_mono) simp
  then have 2: "- roundDouble (a + b) \<le> roundDouble (a - b)"
    using roundDouble_minus [of "a - b"] by simp
  have "0 \<le> roundDouble (a + b)" using assms by (intro roundDouble_nonneg) simp
  then have "roundDouble (roundDouble (a + b)) \<le> roundDouble (roundDouble (a + b) + c)"
    using assms by (intro roundDouble_mono) simp
  then have 3: "roundDouble (a + b) \<le> roundDouble (roundDouble (a + b) + c)"
    by (simp add: roundDouble_idem)
  show ?thesis using 1 2 3 by (simp add: jsSub_def jsAdd_def)
qed


text \<open>A quotient whose divisor is positive and bounds the dividend is a number between
  \<open>-1\<close> and \<open>1\<close>.\<close>

lemma jsDivide_in_range:
  assumes "0 < d" and "\<bar>n\<bar> \<le> d"
  shows "jsDivide n d = Num (of_int n / of_int d)"
    and "- 1 \<le> (of_int n / of_int d :: rat)"
    and "(of_int n / of_int d :: rat) \<le> 1"
proof -
  show "jsDivide n d = Num (of_int n / of_int d)" using assms(1) by (simp add: jsDivide_def)
  have posr: "(0::rat) < of_int d" using assms(1) by simp
  have "- d \<le> n" "n \<le> d" using assms(2) by simp_all
  then have "- (of_int d :: rat) \<le> of_int n" "(of_int n :: rat) \<le> of_int d"
    by (metis of_int_le_iff of_int_minus, metis of_int_le_iff)
  then show "- 1 \<le> (of_int n / of_int d :: rat)" "(of_int n / of_int d :: rat) \<le> 1"
    using posr by (simp_all add: le_divide_eq divide_le_eq)
qed

subsection \<open>sentimentIndex\<close>







subsection \<open>The map built by entityScores\<close>

lemma lastCount_Nil: "lastCount [] e s = 0"
  by (simp add: lastCount_def)

lemma lastCount_snoc:
  "lastCount (ms @ [m]) e s =
     (if m_entity m = e \<and> m_sentiment m = s then m_count m else lastCount ms e s)"
  by (simp add: lastCount_def)

lemma lastCount_absent: "e \<notin> m_entity ` set ms \<Longrightarrow> lastCount ms e s = 0"
proof -
  assume a: "e \<notin> m_entity ` set ms"
  have "filter (\<lambda>m. m_entity m = e \<and> m_sentiment m = s) ms = []"
    using a by (auto simp: filter_empty_conv)
  then show ?thesis by (simp add: lastCount_def)
qed

lemma set_setFromList: "set (setFromList xs) = set xs"
proof (induction xs rule: rev_induct)
  case Nil
  show ?case by (simp add: setFromList_def)
next
  case (snoc x xs)
  then show ?case by (auto simp: setFromList_def)
qed

lemma setFromList_snoc:
  "setFromList (xs @ [x]) = (if x \<in> set xs then setFromList xs else setFromList xs @ [x])"
  using set_setFromList [of xs] by (simp add: setFromList_def)

lemma distinct_setFromList: "distinct (setFromList xs)"
  by (induction xs rule: rev_induct) (simp_all add: setFromList_snoc set_setFromList setFromList_def)

lemma map_of_scoreStep:
  "map_of (scoreStep m mp) =
     (map_of mp)(m_entity m \<mapsto>
        setCounts m (case map_of mp (m_entity m) of None \<Rightarrow> zeroCounts | Some r \<Rightarrow> r))"
  by (simp add: scoreStep_def Let_def map_of_mapSet)

lemma keys_scoreStep:
  "map fst (scoreStep m mp) =
     (if m_entity m \<in> fst ` set mp then map fst mp else map fst mp @ [m_entity m])"
  by (simp add: scoreStep_def Let_def keys_mapSet)

lemma keys_fold_scoreStep:
  "map fst (fold scoreStep ms []) = setFromList (map m_entity ms)"
proof (induction ms rule: rev_induct)
  case Nil
  show ?case by (simp add: setFromList_def)
next
  case (snoc m ms)
  have "fst ` set (fold scoreStep ms []) = set (map fst (fold scoreStep ms []))" by simp
  also have "\<dots> = m_entity ` set ms" by (simp only: snoc.IH set_setFromList set_map)
  finally have k: "fst ` set (fold scoreStep ms []) = m_entity ` set ms" .
  show ?case
    by (simp add: keys_scoreStep k snoc.IH setFromList_snoc)
qed

lemma map_of_fold_scoreStep:
  "map_of (fold scoreStep ms []) e =
     (if e \<in> m_entity ` set ms
      then Some \<lparr>pos = lastCount ms e ''Positive'', neg = lastCount ms e ''Negative'',
                 neu = lastCount ms e ''Neutral''\<rparr>
      else None)"
proof (induction ms rule: rev_induct)
  case Nil
  show ?case by simp
next
  case (snoc m ms)
  show ?case
  proof (cases "e = m_entity m")
    case False
    then show ?thesis using snoc.IH
      by (auto simp: map_of_scoreStep lastCount_snoc)
  next
    case True
    then show ?thesis using snoc.IH
      by (auto simp: map_of_scoreStep lastCount_snoc lastCount_absent setCounts_def zeroCounts_def Let_def)
  qed
qed

subsection \<open>entityScores\<close>

lemma distinct_keys_fold_scoreStep: "distinct (map fst (fold scoreStep ms []))"
  by (simp only: keys_fold_scoreStep distinct_setFromList)

lemma entityScores_rows:
  assumes "a \<in> set (entityScores (Some ex))"
  shows "entity a \<in> m_entity ` set (mix ex)
       \<and> a = toScore (entity a,
             \<lparr>pos = lastCount (mix ex) (entity a) ''Positive'',
              neg = lastCount (mix ex) (entity a) ''Negative'',
              neu = lastCount (mix ex) (entity a) ''Neutral''\<rparr>)"
proof -
  from assms obtain p where p: "p \<in> set (fold scoreStep (mix ex) [])" and a: "a = toScore p"
    by (auto simp: entityScores_def)
  obtain e v where ev: "p = (e, v)" by (cases p)
  have "map_of (fold scoreStep (mix ex) []) e = Some v"
    using p ev distinct_keys_fold_scoreStep [of "mix ex"] by simp
  then have e: "e \<in> m_entity ` set (mix ex)"
    and v: "v = \<lparr>pos = lastCount (mix ex) e ''Positive'', neg = lastCount (mix ex) e ''Negative'',
                 neu = lastCount (mix ex) e ''Neutral''\<rparr>"
    by (simp_all add: map_of_fold_scoreStep split: if_splits)
  have en: "entity a = e" using a ev by (simp add: toScore_def Let_def)
  show ?thesis using e v a ev en by simp
qed

lemma entityScores_fields:
  assumes "a \<in> set (entityScores (Some ex))"
  shows "pos a = lastCount (mix ex) (entity a) ''Positive''"
    and "neg a = lastCount (mix ex) (entity a) ''Negative''"
    and "neu a = lastCount (mix ex) (entity a) ''Neutral''"
    and "total a = orOne (jsAdd (jsAdd (pos a) (neg a)) (neu a))"
    and "score a = jsDivide (jsSub (pos a) (neg a)) (total a)"
proof -
  let ?v = "\<lparr>pos = lastCount (mix ex) (entity a) ''Positive'',
              neg = lastCount (mix ex) (entity a) ''Negative'',
              neu = lastCount (mix ex) (entity a) ''Neutral''\<rparr>"
  have a: "a = toScore (entity a, ?v)" using entityScores_rows [OF assms] by blast
  have "pos (toScore (entity a, ?v)) = lastCount (mix ex) (entity a) ''Positive''"
    by (simp add: toScore_def Let_def)
  then show p: "pos a = lastCount (mix ex) (entity a) ''Positive''" using a by simp
  have "neg (toScore (entity a, ?v)) = lastCount (mix ex) (entity a) ''Negative''"
    by (simp add: toScore_def Let_def)
  then show n: "neg a = lastCount (mix ex) (entity a) ''Negative''" using a by simp
  have "neu (toScore (entity a, ?v)) = lastCount (mix ex) (entity a) ''Neutral''"
    by (simp add: toScore_def Let_def)
  then show u: "neu a = lastCount (mix ex) (entity a) ''Neutral''" using a by simp
  have "total (toScore (entity a, ?v)) = orOne (jsAdd (jsAdd (pos ?v) (neg ?v)) (neu ?v))"
    by (simp add: toScore_def Let_def)
  then show t: "total a = orOne (jsAdd (jsAdd (pos a) (neg a)) (neu a))" using a p n u by simp
  have "score (toScore (entity a, ?v))
      = jsDivide (jsSub (pos ?v) (neg ?v)) (orOne (jsAdd (jsAdd (pos ?v) (neg ?v)) (neu ?v)))"
    by (simp add: toScore_def Let_def)
  then show "score a = jsDivide (jsSub (pos a) (neg a)) (total a)" using a p n u t by simp
qed

lemma entityScores_score_num:
  assumes "a \<in> set (entityScores (Some ex))"
  shows "score a = Num (of_int (jsSub (pos a) (neg a)) / of_int (total a))"
proof -
  note f = entityScores_fields [OF assms]
  have "total a \<noteq> 0" by (simp add: f(4) orOne_def)
  then show ?thesis by (simp add: f(5) jsDivide_def)
qed


lemma entityScores_sorted:
  "sorted_wrt (\<lambda>a b. total b \<le> total a) (entityScores explore)"
proof (cases explore)
  case None
  then show ?thesis by (simp add: entityScores_def)
next
  case (Some ex)
  have "sorted (map (\<lambda>a. - total a) (entityScores (Some ex)))"
    by (simp add: entityScores_def)
  then show ?thesis using Some by (simp add: sorted_map)
qed

lemma lastCount_nonneg:
  assumes "\<forall>m\<in>set ms. 0 \<le> m_count m"
  shows "0 \<le> lastCount ms e s"
proof (cases "filter (\<lambda>m. m_entity m = e \<and> m_sentiment m = s) ms = []")
  case True
  then show ?thesis by (simp add: lastCount_def)
next
  case False
  then have "last (filter (\<lambda>m. m_entity m = e \<and> m_sentiment m = s) ms)
      \<in> set (filter (\<lambda>m. m_entity m = e \<and> m_sentiment m = s) ms)"
    by (rule last_in_set)
  then have "last (filter (\<lambda>m. m_entity m = e \<and> m_sentiment m = s) ms) \<in> set ms" by simp
  then show ?thesis using assms False by (simp add: lastCount_def)
qed






lemma entityScores_fourEntityMix:
  "entityScores (Some (emptyExplore\<lparr>mix := fourEntityMix\<rparr>)) =
     [\<lparr>pos = 5, neg = 0, neu = 4, entity = ''B'', total = 9,
       positivity = Num (5 / 9), negativity = Num 0, score = Num (5 / 9)\<rparr>,
      \<lparr>pos = 1, neg = 3, neu = 0, entity = ''A'', total = 4,
       positivity = Num (1 / 4), negativity = Num (3 / 4), score = Num (- (1 / 2))\<rparr>,
      \<lparr>pos = 0, neg = 2, neu = 0, entity = ''C'', total = 2,
       positivity = Num 0, negativity = Num 1, score = Num (- 1)\<rparr>,
      \<lparr>pos = 0, neg = 0, neu = 0, entity = ''D'', total = 1,
       positivity = Num 0, negativity = Num 0, score = Num 0\<rparr>]"
  by (simp add: entityScores_def emptyExplore_def fourEntityMix_def scoreStep_def setCounts_def
      zeroCounts_def toScore_def orOne_def jsAdd_def jsSub_def roundDouble_exact jsDivide_def
      Let_def)

text \<open>The scenario of the specification: one positive row for entity A.\<close>

lemma entityScores_scenario:
  "entityScores (Some scenarioExplore) =
     [\<lparr>pos = 5, neg = 0, neu = 0, entity = ''A'', total = 5,
       positivity = Num 1, negativity = Num 0, score = Num 1\<rparr>]"
  by (simp add: entityScores_def scenarioExplore_def scenarioMix_def scoreStep_def setCounts_def
      zeroCounts_def toScore_def orOne_def jsAdd_def jsSub_def roundDouble_exact jsDivide_def
      Let_def)


text \<open>
  Claim C2. For every mix array with non-negative counts, every entry of \<^verbatim>\<open>entityScores\<close>
  has a strictly positive \<open>total\<close> (1 when \<open>pos + neg + neu\<close> is 0, and otherwise the sum as
  the source adds it), which is the denominator of its \<open>score\<close>, so no division by zero
  occurs and the \<open>score\<close> is a number; it lies in \<open>[-1, 1]\<close>; and an entity whose mix rows
  all carry unrecognized sentiment values has \<open>total = 1\<close> and \<open>score = 0\<close>. While the three
  counts sum to at most \<open>2^53\<close> the sum is exact.
\<close>

theorem entityScores_score_range:
  assumes "\<forall>m\<in>set (mix ex). 0 \<le> m_count m"
  shows "\<forall>a\<in>set (entityScores (Some ex)).
           0 < total a
         \<and> total a = (if pos a + neg a + neu a = 0 then 1
                      else jsAdd (jsAdd (pos a) (neg a)) (neu a))
         \<and> score a = jsDivide (jsSub (pos a) (neg a)) (total a)
         \<and> (\<exists>q. score a = Num q \<and> - 1 \<le> q \<and> q \<le> 1)
         \<and> (pos a + neg a + neu a \<le> 2 ^ 53 \<longrightarrow>
               total a = (if pos a + neg a + neu a = 0 then 1 else pos a + neg a + neu a)
             \<and> score a = Num (of_int (pos a - neg a) / of_int (total a)))
         \<and> ((\<forall>m\<in>set (mix ex). m_entity m = entity a \<longrightarrow>
                m_sentiment m \<noteq> ''Positive'' \<and> m_sentiment m \<noteq> ''Negative''
                \<and> m_sentiment m \<noteq> ''Neutral'')
              \<longrightarrow> total a = 1 \<and> score a = Num 0)"
proof
  fix a
  assume a: "a \<in> set (entityScores (Some ex))"
  note f = entityScores_fields [OF a]
  let ?s = "jsAdd (jsAdd (pos a) (neg a)) (neu a)"
  have nn: "0 \<le> pos a" "0 \<le> neg a" "0 \<le> neu a"
    using assms by (simp_all add: f(1,2,3) lastCount_nonneg)
  have s1: "0 \<le> jsAdd (pos a) (neg a)" using nn by (intro jsAdd_nonneg)
  then have s0: "0 \<le> ?s" using nn by (intro jsAdd_nonneg)
  have z: "?s = 0 \<longleftrightarrow> pos a + neg a + neu a = 0"
    using nn s1 by (auto simp: jsAdd_zero_iff)
  have c1: "0 < total a" using s0 by (simp add: f(4) orOne_def)
  have c2: "total a = (if pos a + neg a + neu a = 0 then 1 else ?s)"
    using z by (simp add: f(4) orOne_def)
  have "\<bar>jsSub (pos a) (neg a)\<bar> \<le> ?s" using nn by (intro jsSub_le_sum_first)
  also have "\<dots> \<le> total a" using s0 by (simp add: f(4) orOne_def)
  finally have bd: "\<bar>jsSub (pos a) (neg a)\<bar> \<le> total a" .
  note r = jsDivide_in_range [OF c1 bd]
  have c4: "\<exists>q. score a = Num q \<and> - 1 \<le> q \<and> q \<le> 1"
  proof (intro exI conjI)
    show "score a = Num (of_int (jsSub (pos a) (neg a)) / of_int (total a))"
      using f(5) r(1) by simp
    show "- 1 \<le> (of_int (jsSub (pos a) (neg a)) / of_int (total a) :: rat)" by (rule r(2))
    show "(of_int (jsSub (pos a) (neg a)) / of_int (total a) :: rat) \<le> 1" by (rule r(3))
  qed
  have c5: "total a = (if pos a + neg a + neu a = 0 then 1 else pos a + neg a + neu a)
             \<and> score a = Num (of_int (pos a - neg a) / of_int (total a))"
    if le: "pos a + neg a + neu a \<le> 2 ^ 53"
  proof -
    have 1: "jsAdd (pos a) (neg a) = pos a + neg a" using nn le by (intro jsAdd_exact) simp
    have 2: "jsAdd (pos a + neg a) (neu a) = pos a + neg a + neu a"
      using nn le by (intro jsAdd_exact) simp
    have 3: "jsSub (pos a) (neg a) = pos a - neg a" using nn le by (intro jsSub_exact) simp
    show ?thesis using c2 entityScores_score_num [OF a] by (simp add: 1 2 3)
  qed
  have c6: "total a = 1 \<and> score a = Num 0"
    if u: "\<forall>m\<in>set (mix ex). m_entity m = entity a \<longrightarrow>
                m_sentiment m \<noteq> ''Positive'' \<and> m_sentiment m \<noteq> ''Negative''
                \<and> m_sentiment m \<noteq> ''Neutral''"
  proof -
    have zc: "lastCount (mix ex) (entity a) s = 0"
      if "s = ''Positive'' \<or> s = ''Negative'' \<or> s = ''Neutral''" for s
    proof -
      have "filter (\<lambda>m. m_entity m = entity a \<and> m_sentiment m = s) (mix ex) = []"
        using u that by (auto simp: filter_empty_conv)
      then show ?thesis by (simp add: lastCount_def)
    qed
    have p0: "pos a = 0" "neg a = 0" "neu a = 0" by (simp_all add: f(1,2,3) zc)
    then have "total a = 1" using c2 by simp
    moreover have "jsSub (pos a) (neg a) = 0" using p0 by (simp add: jsSub_def roundDouble_exact)
    ultimately show ?thesis using f(5) by (simp add: jsDivide_def)
  qed
  show "0 < total a
         \<and> total a = (if pos a + neg a + neu a = 0 then 1
                      else jsAdd (jsAdd (pos a) (neg a)) (neu a))
         \<and> score a = jsDivide (jsSub (pos a) (neg a)) (total a)
         \<and> (\<exists>q. score a = Num q \<and> - 1 \<le> q \<and> q \<le> 1)
         \<and> (pos a + neg a + neu a \<le> 2 ^ 53 \<longrightarrow>
               total a = (if pos a + neg a + neu a = 0 then 1 else pos a + neg a + neu a)
             \<and> score a = Num (of_int (pos a - neg a) / of_int (total a)))
         \<and> ((\<forall>m\<in>set (mix ex). m_entity m = entity a \<longrightarrow>
                m_sentiment m \<noteq> ''Positive'' \<and> m_sentiment m \<noteq> ''Negative''
                \<and> m_sentiment m \<noteq> ''Neutral'')
              \<longrightarrow> total a = 1 \<and> score a = Num 0)"
    using c1 c2 f(5) c4 c5 c6 by blast
qed

lemma entityScores_unknownMix:
  "entityScores (Some \<lparr>distribution = [], mix = unknownMix, leaderboard = []\<rparr>) =
     [\<lparr>pos = 1, neg = 3, neu = 0, entity = ''A'', total = 4,
       positivity = Num (1 / 4), negativity = Num (3 / 4), score = Num (- (1 / 2))\<rparr>,
      \<lparr>pos = 0, neg = 0, neu = 0, entity = ''B'', total = 1,
       positivity = Num 0, negativity = Num 0, score = Num 0\<rparr>]"
  by (simp add: entityScores_def unknownMix_def scoreStep_def setCounts_def
      zeroCounts_def toScore_def orOne_def jsAdd_def jsSub_def roundDouble_exact jsDivide_def
      Let_def)

theorem entityScores_score_range_witness:
  "list_all (\<lambda>a. 0 < total a \<and> (\<exists>q. score a = Num q \<and> - 1 \<le> q \<and> q \<le> 1))
     (entityScores (Some \<lparr>distribution = [], mix = unknownMix, leaderboard = []\<rparr>))
   \<and> map score (entityScores (Some \<lparr>distribution = [], mix = unknownMix, leaderboard = []\<rparr>))
       = [Num (- (1 / 2)), Num 0]
   \<and> map total (entityScores (Some \<lparr>distribution = [], mix = unknownMix, leaderboard = []\<rparr>))
       = [4, 1]"
proof -
  have h: "\<forall>m\<in>set (mix \<lparr>distribution = [], mix = unknownMix, leaderboard = []\<rparr>). 0 \<le> m_count m"
    by (simp add: unknownMix_def)
  note t = entityScores_score_range [OF h]
  have a: "list_all (\<lambda>a. 0 < total a \<and> (\<exists>q. score a = Num q \<and> - 1 \<le> q \<and> q \<le> 1))
     (entityScores (Some \<lparr>distribution = [], mix = unknownMix, leaderboard = []\<rparr>))"
    unfolding list_all_iff using t by blast
  have b: "map score (entityScores (Some \<lparr>distribution = [], mix = unknownMix, leaderboard = []\<rparr>))
       = [Num (- (1 / 2)), Num 0]"
    by (simp add: entityScores_unknownMix)
  have c: "map total (entityScores (Some \<lparr>distribution = [], mix = unknownMix, leaderboard = []\<rparr>))
       = [4, 1]"
    by (simp add: entityScores_unknownMix)
  from a b c show ?thesis by blast
qed

subsection \<open>Rankings\<close>

lemma take_sorted_dominates:
  assumes "sorted_wrt (\<lambda>a b. f b \<le> (f a :: 'b :: order)) xs"
    and "a \<in> set (take n xs)" and "b \<in> set (drop n xs)"
  shows "f b \<le> f a"
proof -
  have "sorted_wrt (\<lambda>a b. f b \<le> f a) (take n xs @ drop n xs)" using assms(1) by simp
  then show ?thesis using assms(2,3) unfolding sorted_wrt_append by blast
qed

lemma set_insertBy: "set (insertBy cmp a bs) = insert a (set bs)"
  by (induction bs) auto

lemma set_sortBy: "set (sortBy cmp xs) = set xs"
  by (induction xs) (simp_all add: sortBy_def set_insertBy)

lemma length_insertBy: "length (insertBy cmp a bs) = Suc (length bs)"
  by (induction bs) auto

lemma length_sortBy: "length (sortBy cmp xs) = length xs"
  by (induction xs) (simp_all add: sortBy_def length_insertBy)

text \<open>On quotients that are numbers, the sort with the comparator \<^verbatim>\<open>b.score - a.score\<close>
  is the stable sort by descending score, and with \<^verbatim>\<open>a.score - b.score\<close> by ascending
  score.\<close>

lemma insertBy_desc:
  assumes "\<exists>q. f a = Num q" and "\<forall>b\<in>set bs. \<exists>q. f b = Num q"
  shows "insertBy (\<lambda>a b. jsMinus (f b) (f a)) a bs = insort_key (\<lambda>a. - numOf (f a)) a bs"
  using assms by (induction bs) auto

lemma sortBy_desc:
  assumes "\<forall>b\<in>set xs. \<exists>q. f b = Num q"
  shows "sortBy (\<lambda>a b. jsMinus (f b) (f a)) xs = sort_key (\<lambda>a. - numOf (f a)) xs"
  using assms
proof (induction xs)
  case Nil
  show ?case by (simp add: sortBy_def)
next
  case (Cons x xs)
  have "sortBy (\<lambda>a b. jsMinus (f b) (f a)) xs = sort_key (\<lambda>a. - numOf (f a)) xs"
    using Cons by simp
  moreover have "\<forall>b\<in>set (sort_key (\<lambda>a. - numOf (f a)) xs). \<exists>q. f b = Num q"
    using Cons.prems by simp
  ultimately show ?case
    using Cons.prems insertBy_desc [of f x "sort_key (\<lambda>a. - numOf (f a)) xs"]
    by (simp add: sortBy_def)
qed

lemma insertBy_asc:
  assumes "\<exists>q. f a = Num q" and "\<forall>b\<in>set bs. \<exists>q. f b = Num q"
  shows "insertBy (\<lambda>a b. jsMinus (f a) (f b)) a bs = insort_key (\<lambda>a. numOf (f a)) a bs"
  using assms by (induction bs) auto

lemma sortBy_asc:
  assumes "\<forall>b\<in>set xs. \<exists>q. f b = Num q"
  shows "sortBy (\<lambda>a b. jsMinus (f a) (f b)) xs = sort_key (\<lambda>a. numOf (f a)) xs"
  using assms
proof (induction xs)
  case Nil
  show ?case by (simp add: sortBy_def)
next
  case (Cons x xs)
  have "sortBy (\<lambda>a b. jsMinus (f a) (f b)) xs = sort_key (\<lambda>a. numOf (f a)) xs"
    using Cons by simp
  moreover have "\<forall>b\<in>set (sort_key (\<lambda>a. numOf (f a)) xs). \<exists>q. f b = Num q"
    using Cons.prems by simp
  ultimately show ?case
    using Cons.prems insertBy_asc [of f x "sort_key (\<lambda>a. numOf (f a)) xs"]
    by (simp add: sortBy_def)
qed

lemma sorted_numOf_jsLe:
  assumes "sorted_wrt (\<lambda>a b. numOf (f a) \<le> numOf (f b)) xs"
    and "\<forall>b\<in>set xs. \<exists>q. f b = Num q"
  shows "sorted_wrt (\<lambda>a b. jsLe (f a) (f b)) xs"
  using assms(1)
proof (rule sorted_wrt_mono_rel [rotated])
  fix a b
  assume ab: "a \<in> set xs" "b \<in> set xs" and le: "numOf (f a) \<le> numOf (f b)"
  obtain p where p: "f a = Num p" using ab(1) assms(2) by blast
  obtain q where q: "f b = Num q" using ab(2) assms(2) by blast
  show "jsLe (f a) (f b)" using le by (simp add: p q)
qed

lemma entityScores_num:
  assumes "a \<in> set (entityScores explore)"
  shows "\<exists>q. score a = Num q"
proof (cases explore)
  case None
  then show ?thesis using assms by (simp add: entityScores_def)
next
  case (Some ex)
  then show ?thesis using assms entityScores_score_num [of a ex] by blast
qed

text \<open>
  Claim C3. For every mix array, \<^verbatim>\<open>topPositiveEntities\<close> and \<^verbatim>\<open>topNegativeEntities\<close> take
  the first 20 entries of the total-descending \<^verbatim>\<open>entityScores\<close> list, sort that subset by
  score descending (positive) or ascending (negative) and keep the first 8. So every
  entity of either list is among the first 20 of \<^verbatim>\<open>entityScores\<close>, no entry outside those 20
  has a larger total than one inside, the positive list is sorted by score descending, the
  negative list by score ascending, and each has at most 8 entries.
\<close>

theorem topEntities_spec:
  "topPositiveEntities (entityScores explore)
     = take 8 (sort_key (\<lambda>a. - numOf (score a)) (take 20 (entityScores explore)))
   \<and> topNegativeEntities (entityScores explore)
     = take 8 (sort_key (\<lambda>a. numOf (score a)) (take 20 (entityScores explore)))
   \<and> set (topPositiveEntities (entityScores explore)) \<subseteq> set (take 20 (entityScores explore))
   \<and> set (topNegativeEntities (entityScores explore)) \<subseteq> set (take 20 (entityScores explore))
   \<and> (\<forall>a\<in>set (take 20 (entityScores explore)).
        \<forall>b\<in>set (drop 20 (entityScores explore)). total b \<le> total a)
   \<and> sorted_wrt (\<lambda>a b. jsLe (score b) (score a)) (topPositiveEntities (entityScores explore))
   \<and> sorted_wrt (\<lambda>a b. jsLe (score a) (score b)) (topNegativeEntities (entityScores explore))
   \<and> length (topPositiveEntities (entityScores explore)) \<le> 8
   \<and> length (topNegativeEntities (entityScores explore)) \<le> 8"
proof -
  let ?es = "entityScores explore"
  have num: "\<forall>b\<in>set (take 20 ?es). \<exists>q. score b = Num q"
    using entityScores_num [of _ explore] by (meson in_set_takeD)
  have ep: "topPositiveEntities ?es = take 8 (sort_key (\<lambda>a. - numOf (score a)) (take 20 ?es))"
    unfolding topPositiveEntities_def using sortBy_desc [OF num] by simp
  have en: "topNegativeEntities ?es = take 8 (sort_key (\<lambda>a. numOf (score a)) (take 20 ?es))"
    unfolding topNegativeEntities_def using sortBy_asc [OF num] by simp
  have p: "set (topPositiveEntities ?es) \<subseteq> set (take 20 ?es)"
    unfolding ep using set_take_subset [of 8 "sort_key (\<lambda>a. - numOf (score a)) (take 20 ?es)"]
    by simp
  have n: "set (topNegativeEntities ?es) \<subseteq> set (take 20 ?es)"
    unfolding en using set_take_subset [of 8 "sort_key (\<lambda>a. numOf (score a)) (take 20 ?es)"]
    by simp
  have d: "\<forall>a\<in>set (take 20 ?es). \<forall>b\<in>set (drop 20 ?es). total b \<le> total a"
    using take_sorted_dominates [OF entityScores_sorted] by blast
  have "sorted (map (\<lambda>a. - numOf (score a)) (sort_key (\<lambda>a. - numOf (score a)) (take 20 ?es)))"
    by simp
  then have "sorted (map (\<lambda>a. - numOf (score a)) (topPositiveEntities ?es))"
    unfolding ep take_map [symmetric] by (rule sorted_wrt_take)
  then have "sorted_wrt (\<lambda>a b. numOf (score b) \<le> numOf (score a)) (topPositiveEntities ?es)"
    by (simp add: sorted_map)
  then have "sorted_wrt (\<lambda>a b. numOf (score a) \<le> numOf (score b)) (rev (topPositiveEntities ?es))"
    by (simp add: sorted_wrt_rev)
  then have "sorted_wrt (\<lambda>a b. jsLe (score a) (score b)) (rev (topPositiveEntities ?es))"
    using num p by (intro sorted_numOf_jsLe) auto
  then have sp: "sorted_wrt (\<lambda>a b. jsLe (score b) (score a)) (topPositiveEntities ?es)"
    by (simp add: sorted_wrt_rev)
  have "sorted (map (\<lambda>a. numOf (score a)) (sort_key (\<lambda>a. numOf (score a)) (take 20 ?es)))"
    by simp
  then have "sorted (map (\<lambda>a. numOf (score a)) (topNegativeEntities ?es))"
    unfolding en take_map [symmetric] by (rule sorted_wrt_take)
  then have "sorted_wrt (\<lambda>a b. numOf (score a) \<le> numOf (score b)) (topNegativeEntities ?es)"
    by (simp add: sorted_map)
  then have sn: "sorted_wrt (\<lambda>a b. jsLe (score a) (score b)) (topNegativeEntities ?es)"
    using num n by (intro sorted_numOf_jsLe) auto
  have lp: "length (topPositiveEntities ?es) \<le> 8" by (simp add: ep)
  have ln: "length (topNegativeEntities ?es) \<le> 8" by (simp add: en)
  from ep en p n d sp sn lp ln show ?thesis by (intro conjI)
qed

theorem topEntities_spec_witness:
  "set (topPositiveEntities (entityScores (Some (emptyExplore\<lparr>mix := fourEntityMix\<rparr>))))
     \<subseteq> set (take 20 (entityScores (Some (emptyExplore\<lparr>mix := fourEntityMix\<rparr>))))
   \<and> sorted_wrt (\<lambda>a b. jsLe (score b) (score a))
       (topPositiveEntities (entityScores (Some (emptyExplore\<lparr>mix := fourEntityMix\<rparr>))))
   \<and> sorted_wrt (\<lambda>a b. jsLe (score a) (score b))
       (topNegativeEntities (entityScores (Some (emptyExplore\<lparr>mix := fourEntityMix\<rparr>))))
   \<and> map entity (topPositiveEntities
        (entityScores (Some (emptyExplore\<lparr>mix := fourEntityMix\<rparr>)))) = [''B'', ''D'', ''A'', ''C'']
   \<and> map entity (topNegativeEntities
        (entityScores (Some (emptyExplore\<lparr>mix := fourEntityMix\<rparr>)))) = [''C'', ''A'', ''D'', ''B'']"
proof -
  note t = topEntities_spec [of "Some (emptyExplore\<lparr>mix := fourEntityMix\<rparr>)"]
  have a: "map entity (topPositiveEntities
        (entityScores (Some (emptyExplore\<lparr>mix := fourEntityMix\<rparr>)))) = [''B'', ''D'', ''A'', ''C'']"
    by (simp add: entityScores_fourEntityMix topPositiveEntities_def sortBy_def)
  have b: "map entity (topNegativeEntities
        (entityScores (Some (emptyExplore\<lparr>mix := fourEntityMix\<rparr>)))) = [''C'', ''A'', ''D'', ''B'']"
    by (simp add: entityScores_fourEntityMix topNegativeEntities_def sortBy_def)
  from t a b show ?thesis by blast
qed

subsection \<open>topEntitiesBar\<close>

text \<open>
  Claim C8, as stated, fails: the bar series is cut from the leaderboard array in the
  order received, so on a leaderboard whose eleventh row has the most mentions the series
  misses the entity with the largest mentions value.
\<close>

theorem topEntitiesBar_counterexample:
  "bar_values (topEntitiesBar (Some \<lparr>distribution = [], mix = [], leaderboard = unrankedLeaderboard\<rparr>))
     = [1, 1, 1, 1, 1, 1, 1, 1, 1, 1]
   \<and> map mentions (topMentions unrankedLeaderboard) = [5, 1, 1, 1, 1, 1, 1, 1, 1, 1]
   \<and> bar_labels (topEntitiesBar (Some \<lparr>distribution = [], mix = [], leaderboard = unrankedLeaderboard\<rparr>))
     = [''a'', ''b'', ''c'', ''d'', ''e'', ''f'', ''g'', ''h'', ''i'', ''j'']
   \<and> map l_entity (topMentions unrankedLeaderboard)
     = [''k'', ''a'', ''b'', ''c'', ''d'', ''e'', ''f'', ''g'', ''h'', ''i'']"
  by (simp add: topEntitiesBar_def topMentions_def unrankedLeaderboard_def)

text \<open>
  Claim C8, amended. For every leaderboard array, the "Top Entities" bar series consists
  of the first 10 rows of the leaderboard array in the order received (all rows when fewer
  than 10 exist): its labels are their names and its values their mention counts. When
  the leaderboard array is sorted by mentions, descending, these are the 10 entities with
  the largest mentions values.
\<close>

theorem topEntitiesBar_first_ten:
  "bar_labels (topEntitiesBar (Some ex)) = map l_entity (take 10 (leaderboard ex))
   \<and> bar_values (topEntitiesBar (Some ex)) = map mentions (take 10 (leaderboard ex))
   \<and> (sorted_wrt (\<lambda>a b. mentions b \<le> mentions a) (leaderboard ex) \<longrightarrow>
        bar_labels (topEntitiesBar (Some ex)) = map l_entity (topMentions (leaderboard ex))
      \<and> bar_values (topEntitiesBar (Some ex)) = map mentions (topMentions (leaderboard ex)))"
proof -
  have "sort_key (\<lambda>r. - mentions r) (leaderboard ex) = leaderboard ex"
    if "sorted_wrt (\<lambda>a b. mentions b \<le> mentions a) (leaderboard ex)"
  proof -
    have "sorted (map (\<lambda>r. - mentions r) (leaderboard ex))" using that by (simp add: sorted_map)
    then show ?thesis by (rule sort_key_id_if_sorted)
  qed
  then show ?thesis by (simp add: topEntitiesBar_def topMentions_def)
qed

theorem topEntitiesBar_first_ten_witness:
  "bar_labels (topEntitiesBar (Some \<lparr>distribution = [], mix = [], leaderboard = rankedLeaderboard\<rparr>))
     = map l_entity (topMentions rankedLeaderboard)
   \<and> bar_values (topEntitiesBar (Some \<lparr>distribution = [], mix = [], leaderboard = rankedLeaderboard\<rparr>))
     = [5, 1]"
proof -
  let ?E = "\<lparr>distribution = [], mix = [], leaderboard = rankedLeaderboard\<rparr>"
  have h: "sorted_wrt (\<lambda>a b. mentions b \<le> mentions a) (leaderboard ?E)"
    by (simp add: rankedLeaderboard_def)
  note t = topEntitiesBar_first_ten [of ?E]
  from t h have "bar_labels (topEntitiesBar (Some ?E)) = map l_entity (topMentions (leaderboard ?E))"
    by blast
  then have a: "bar_labels (topEntitiesBar (Some ?E)) = map l_entity (topMentions rankedLeaderboard)"
    by simp
  from t have "bar_values (topEntitiesBar (Some ?E)) = map mentions (take 10 (leaderboard ?E))"
    by blast
  then have b: "bar_values (topEntitiesBar (Some ?E)) = [5, 1]"
    by (simp add: rankedLeaderboard_def)
  from a b show ?thesis by blast
qed

subsection \<open>explorerMix\<close>

lemma map_of_fold_fresh:
  "map_of (fold (\<lambda>e mp. mapSet e v mp) es acc) e =
     (if e \<in> set es then Some v else map_of acc e)"
  by (induction es arbitrary: acc) (auto simp: map_of_mapSet)

lemma mixAssign_total:
  assumes "m_entity ` set ms \<subseteq> dom (map_of mp)"
  shows "\<exists>mp'. mixAssign ms mp = Some mp'
           \<and> dom (map_of mp') = dom (map_of mp)
           \<and> (\<forall>e k. lookup2 mp' e k =
                (let hits = filter (\<lambda>m. m_entity m = e \<and> m_sentiment m = k) ms
                 in if hits = [] then lookup2 mp e k else Some (m_count (last hits))))"
  using assms
proof (induction ms arbitrary: mp)
  case Nil
  then show ?case by simp
next
  case (Cons m ms)
  from Cons.prems obtain r where r: "map_of mp (m_entity m) = Some r" by auto
  let ?mp1 = "mapSet (m_entity m) (mapSet (m_sentiment m) (m_count m) r) mp"
  have d1: "dom (map_of ?mp1) = dom (map_of mp)"
    using r by (auto simp: map_of_mapSet)
  have l1: "lookup2 ?mp1 e k =
      (if e = m_entity m \<and> k = m_sentiment m then Some (m_count m) else lookup2 mp e k)" for e k
    using r by (simp add: lookup2_def map_of_mapSet)
  have "m_entity ` set ms \<subseteq> dom (map_of ?mp1)" using Cons.prems d1 by auto
  from Cons.IH [OF this] obtain mp' where
    a: "mixAssign ms ?mp1 = Some mp'" and
    b: "dom (map_of mp') = dom (map_of ?mp1)" and
    c: "\<And>e k. lookup2 mp' e k =
          (let hits = filter (\<lambda>m. m_entity m = e \<and> m_sentiment m = k) ms
           in if hits = [] then lookup2 ?mp1 e k else Some (m_count (last hits)))"
    by blast
  have "mixAssign (m # ms) mp = Some mp'" using r a by simp
  moreover have "dom (map_of mp') = dom (map_of mp)" using b d1 by simp
  moreover have "lookup2 mp' e k =
          (let hits = filter (\<lambda>m. m_entity m = e \<and> m_sentiment m = k) (m # ms)
           in if hits = [] then lookup2 mp e k else Some (m_count (last hits)))" for e k
    by (simp add: c l1 Let_def)
  ultimately show ?case by blast
qed

lemma readSeries_total:
  assumes "set es \<subseteq> dom (map_of mp)"
  shows "readSeries k mp es = Some (map (\<lambda>e. lookup2 mp e k) es)"
  using assms by (induction es) (auto simp: lookup2_def)

lemma explorerMix_value:
  "explorerMix (Some ex) =
     Some \<lparr>s_x = setFromList (map m_entity (mix ex)),
           s_neg = map (\<lambda>e. Some (lastCount (mix ex) e ''Negative''))
                     (setFromList (map m_entity (mix ex))),
           s_neu = map (\<lambda>e. Some (lastCount (mix ex) e ''Neutral''))
                     (setFromList (map m_entity (mix ex))),
           s_pos = map (\<lambda>e. Some (lastCount (mix ex) e ''Positive''))
                     (setFromList (map m_entity (mix ex)))\<rparr>"
proof -
  let ?ents = "setFromList (map m_entity (mix ex))"
  let ?map0 = "fold (\<lambda>e mp. mapSet e freshRecord mp) ?ents []"
  have m0: "map_of ?map0 e = (if e \<in> m_entity ` set (mix ex) then Some freshRecord else None)" for e
    by (simp add: map_of_fold_fresh set_setFromList)
  have d0: "dom (map_of ?map0) = m_entity ` set (mix ex)"
    by (auto simp: m0 dom_def)
  then have "m_entity ` set (mix ex) \<subseteq> dom (map_of ?map0)" by simp
  from mixAssign_total [OF this] obtain mp where
    a: "mixAssign (mix ex) ?map0 = Some mp" and
    b: "dom (map_of mp) = dom (map_of ?map0)" and
    c: "\<And>e k. lookup2 mp e k =
          (let hits = filter (\<lambda>m. m_entity m = e \<and> m_sentiment m = k) (mix ex)
           in if hits = [] then lookup2 ?map0 e k else Some (m_count (last hits)))"
    by blast
  have sub: "set ?ents \<subseteq> dom (map_of mp)" using b d0 by (simp add: set_setFromList)
  have v: "lookup2 mp e k = Some (lastCount (mix ex) e k)"
    if "e \<in> set ?ents" "k = ''Negative'' \<or> k = ''Neutral'' \<or> k = ''Positive''" for e k
  proof -
    have "e \<in> m_entity ` set (mix ex)" using that(1) by (simp add: set_setFromList)
    then have "map_of ?map0 e = Some freshRecord" by (simp only: m0 if_True)
    then have "lookup2 ?map0 e k = map_of freshRecord k" by (simp only: lookup2_def option.case)
    moreover have "map_of freshRecord k = Some 0" using that(2) by (auto simp: freshRecord_def)
    ultimately have "lookup2 ?map0 e k = Some 0" by simp
    then show ?thesis by (simp add: c lastCount_def Let_def)
  qed
  have rs: "readSeries k mp ?ents = Some (map (\<lambda>e. Some (lastCount (mix ex) e k)) ?ents)"
    if "k = ''Negative'' \<or> k = ''Neutral'' \<or> k = ''Positive''" for k
    using that v by (simp add: readSeries_total [OF sub])
  show ?thesis
    by (simp add: explorerMix_def Let_def a rs)
qed

lemma lastCount_last_occurrence:
  assumes "ms = before @ m # after"
    and "\<forall>m'\<in>set after. \<not> (m_entity m' = m_entity m \<and> m_sentiment m' = m_sentiment m)"
  shows "lastCount ms (m_entity m) (m_sentiment m) = m_count m"
proof -
  have "filter (\<lambda>m'. m_entity m' = m_entity m \<and> m_sentiment m' = m_sentiment m) after = []"
    using assms(2) by (auto simp: filter_empty_conv)
  then show ?thesis by (simp add: assms(1) lastCount_def)
qed

text \<open>
  Claim C9. For every mix array, also one that repeats an (entity, sentiment) pair, both
  the \<^verbatim>\<open>entityScores\<close> aggregation and the stacked series of \<^verbatim>\<open>explorerMix\<close> record for a
  pair the count of its last entry in input order: a later entry overwrites an earlier
  one, the counts are not summed.
\<close>

theorem repeated_pairs_last_wins:
  "(\<forall>a\<in>set (entityScores (Some ex)).
       pos a = lastCount (mix ex) (entity a) ''Positive''
     \<and> neg a = lastCount (mix ex) (entity a) ''Negative''
     \<and> neu a = lastCount (mix ex) (entity a) ''Neutral'')
   \<and> explorerMix (Some ex) =
       Some \<lparr>s_x = setFromList (map m_entity (mix ex)),
             s_neg = map (\<lambda>e. Some (lastCount (mix ex) e ''Negative''))
                       (setFromList (map m_entity (mix ex))),
             s_neu = map (\<lambda>e. Some (lastCount (mix ex) e ''Neutral''))
                       (setFromList (map m_entity (mix ex))),
             s_pos = map (\<lambda>e. Some (lastCount (mix ex) e ''Positive''))
                       (setFromList (map m_entity (mix ex)))\<rparr>
   \<and> (\<forall>before m after.
        mix ex = before @ m # after
        \<and> (\<forall>m'\<in>set after. \<not> (m_entity m' = m_entity m \<and> m_sentiment m' = m_sentiment m))
        \<longrightarrow> lastCount (mix ex) (m_entity m) (m_sentiment m) = m_count m)"
  using entityScores_fields(1,2,3) [of _ ex] explorerMix_value [of ex] lastCount_last_occurrence
  by blast

theorem repeated_pairs_last_wins_witness:
  "explorerMix (Some \<lparr>distribution = [], mix = repeatedMix, leaderboard = []\<rparr>) =
       Some \<lparr>s_x = [''A'', ''B''], s_neg = [Some 2, Some 0], s_neu = [Some 0, Some 4],
             s_pos = [Some 9, Some 0]\<rparr>
   \<and> map pos (entityScores (Some \<lparr>distribution = [], mix = repeatedMix, leaderboard = []\<rparr>)) = [9, 0]
   \<and> map entity (entityScores (Some \<lparr>distribution = [], mix = repeatedMix, leaderboard = []\<rparr>))
       = [''A'', ''B'']"
proof -
  let ?E = "\<lparr>distribution = [], mix = repeatedMix, leaderboard = []\<rparr>"
  note t = repeated_pairs_last_wins [of ?E]
  have s: "setFromList (map m_entity repeatedMix) = [''A'', ''B'']"
    by (simp add: setFromList_def repeatedMix_def)
  have l: "lastCount repeatedMix ''A'' ''Positive'' = 9" "lastCount repeatedMix ''A'' ''Negative'' = 2"
    "lastCount repeatedMix ''A'' ''Neutral'' = 0" "lastCount repeatedMix ''B'' ''Positive'' = 0"
    "lastCount repeatedMix ''B'' ''Negative'' = 0" "lastCount repeatedMix ''B'' ''Neutral'' = 4"
    by (simp_all add: lastCount_def repeatedMix_def)
  from t have "explorerMix (Some ?E) =
       Some \<lparr>s_x = setFromList (map m_entity (mix ?E)),
             s_neg = map (\<lambda>e. Some (lastCount (mix ?E) e ''Negative''))
                       (setFromList (map m_entity (mix ?E))),
             s_neu = map (\<lambda>e. Some (lastCount (mix ?E) e ''Neutral''))
                       (setFromList (map m_entity (mix ?E))),
             s_pos = map (\<lambda>e. Some (lastCount (mix ?E) e ''Positive''))
                       (setFromList (map m_entity (mix ?E)))\<rparr>"
    by blast
  then have a: "explorerMix (Some ?E) =
       Some \<lparr>s_x = [''A'', ''B''], s_neg = [Some 2, Some 0], s_neu = [Some 0, Some 4],
             s_pos = [Some 9, Some 0]\<rparr>"
    by (simp add: s l)
  have es: "entityScores (Some ?E) =
     [\<lparr>pos = 9, neg = 2, neu = 0, entity = ''A'', total = 11,
       positivity = Num (9 / 11), negativity = Num (2 / 11), score = Num (7 / 11)\<rparr>,
      \<lparr>pos = 0, neg = 0, neu = 4, entity = ''B'', total = 4,
       positivity = Num 0, negativity = Num 0, score = Num 0\<rparr>]"
    by (simp add: entityScores_def repeatedMix_def scoreStep_def setCounts_def
      zeroCounts_def toScore_def orOne_def jsAdd_def jsSub_def roundDouble_exact jsDivide_def
      Let_def)
  have b: "map pos (entityScores (Some ?E)) = [9, 0]" by (simp add: es)
  have c: "map entity (entityScores (Some ?E)) = [''A'', ''B'']" by (simp add: es)
  from a b c show ?thesis by blast
qed

subsection \<open>Row filters\<close>

lemma includes_sublist: "jsIncludes s q = sublist q s"
  by (induction s) (simp_all add: sublist_Cons_right)

lemma toLowerCase_Nil: "toLowerCase s = [] \<longleftrightarrow> s = []"
  by (simp add: toLowerCase_def)

lemma stringOrEmpty_fieldText:
  assumes "v \<noteq> JNum 0" and "v \<noteq> JBool False"
  shows "stringOrEmpty v = fieldText v"
  using assms by (cases v) (auto simp: stringOrEmpty_def)

lemma fieldIncludes_containsCI:
  assumes "getProp r k \<noteq> JNum 0" and "getProp r k \<noteq> JBool False"
  shows "fieldIncludes r k (toLowerCase q) = containsCI (fieldText (getProp r k)) q"
  by (simp add: fieldIncludes_def containsCI_def includes_sublist
      stringOrEmpty_fieldText [OF assms])

text \<open>
  Apart from fields that hold the number 0 or the boolean false, the filters select, in
  input order, the rows of which a matched field contains the trimmed query as a
  case-insensitive substring, and return the rows as they are for a query that trims to
  the empty string.
\<close>

lemma filteredSampleRows_contains:
  assumes "\<forall>r\<in>set rows. \<forall>k\<in>{''text'', ''entity'', ''sentiment'', ''tweet_id''}.
             getProp r k \<noteq> JNum 0 \<and> getProp r k \<noteq> JBool False"
  shows "filteredSampleRows rows search =
           (if trim search = [] then rows
            else filter (\<lambda>r. containsCI (fieldText (getProp r ''text'')) (trim search)
                            \<or> containsCI (fieldText (getProp r ''entity'')) (trim search)
                            \<or> containsCI (fieldText (getProp r ''sentiment'')) (trim search)
                            \<or> containsCI (fieldText (getProp r ''tweet_id'')) (trim search))
                   rows)"
proof -
  have "filter (\<lambda>r. fieldIncludes r ''text'' (toLowerCase (trim search))
                  \<or> fieldIncludes r ''entity'' (toLowerCase (trim search))
                  \<or> fieldIncludes r ''sentiment'' (toLowerCase (trim search))
                  \<or> fieldIncludes r ''tweet_id'' (toLowerCase (trim search))) rows
      = filter (\<lambda>r. containsCI (fieldText (getProp r ''text'')) (trim search)
                  \<or> containsCI (fieldText (getProp r ''entity'')) (trim search)
                  \<or> containsCI (fieldText (getProp r ''sentiment'')) (trim search)
                  \<or> containsCI (fieldText (getProp r ''tweet_id'')) (trim search)) rows"
    using assms by (intro filter_cong refl) (simp add: fieldIncludes_containsCI)
  then show ?thesis
    by (simp add: filteredSampleRows_def Let_def toLowerCase_Nil)
qed

lemma filteredLeaderboardRows_contains:
  assumes "\<forall>r\<in>set rows. getProp r ''entity'' \<noteq> JNum 0 \<and> getProp r ''entity'' \<noteq> JBool False"
  shows "filteredLeaderboardRows rows search =
           (if trim search = [] then rows
            else filter (\<lambda>r. containsCI (fieldText (getProp r ''entity'')) (trim search)) rows)"
proof -
  have "filter (\<lambda>r. fieldIncludes r ''entity'' (toLowerCase (trim search))) rows
      = filter (\<lambda>r. containsCI (fieldText (getProp r ''entity'')) (trim search)) rows"
    using assms by (intro filter_cong refl) (simp add: fieldIncludes_containsCI)
  then show ?thesis
    by (simp add: filteredLeaderboardRows_def Let_def toLowerCase_Nil)
qed

lemma filteredSampleRows_example:
  "filteredSampleRows [sampleZero, sampleOne] '' DEL '' = [sampleOne]"
  by (simp add: filteredSampleRows_def fieldIncludes_def stringOrEmpty_def getProp_def
      sampleZero_def sampleOne_def toLowerCase_def lowerChar_def trim_def isWhiteSpace_def
      digitsOf.simps char_of_def bit_Suc_0_iff Let_def)

text \<open>
  Claim C6 at a sample row whose \<^verbatim>\<open>tweet_id\<close> is the number 0 and the query \<^verbatim>\<open>"0"\<close>: the
  identifier, as text, contains the query, so the claim has the row in the result; the
  source reads \<^verbatim>\<open>String(r.tweet_id || "")\<close>, which is the empty string for the falsy 0,
  and drops the row.
\<close>

theorem filteredSampleRows_zero_id:
  "containsCI (fieldText (getProp sampleZero ''tweet_id'')) (trim ''0'')
   \<and> filteredSampleRows [sampleZero] ''0'' = []"
proof -
  have "jsIncludes (toLowerCase (fieldText (getProp sampleZero ''tweet_id''))) (toLowerCase (trim ''0''))"
    by (simp add: getProp_def sampleZero_def toLowerCase_def lowerChar_def trim_def
        isWhiteSpace_def digitsOf.simps char_of_def bit_Suc_0_iff)
  then have a: "containsCI (fieldText (getProp sampleZero ''tweet_id'')) (trim ''0'')"
    by (simp add: containsCI_def includes_sublist)
  have b: "filteredSampleRows [sampleZero] ''0'' = []"
    by (simp add: filteredSampleRows_def fieldIncludes_def stringOrEmpty_def getProp_def
      sampleZero_def toLowerCase_def lowerChar_def trim_def isWhiteSpace_def Let_def
      char_of_def bit_Suc_0_iff)
  from a b show ?thesis by blast
qed

subsection \<open>Batch merge\<close>


lemma onBatchFile_length:
  assumes "batchPredict (map textOf (filter hasText resultsData)) = Some sentiments"
  shows "length (onBatchFile batchPredict resultsData) = length (filter hasText resultsData)"
  using assms by (simp add: onBatchFile_def Let_def)

lemma onBatchFile_nth:
  assumes "batchPredict (map textOf (filter hasText resultsData)) = Some sentiments"
    and "i < length (filter hasText resultsData)"
  shows "onBatchFile batchPredict resultsData ! i
           = mergeRow sentiments i (filter hasText resultsData ! i)"
  using assms by (simp add: onBatchFile_def Let_def nth_enumerate_eq)

lemma mergeRow_predicted:
  "mergeRow sentiments i row ''predicted_sentiment'' = Some (sentimentAt sentiments i)"
  by (simp add: mergeRow_def)

lemma mergeRow_id:
  "mergeRow sentiments i row ''id'' =
     (case row ''id'' of None \<Rightarrow> Some (JNum (int i + 1)) | Some v \<Rightarrow> Some (JStr v))"
  by (simp add: mergeRow_def spread_def map_add_def split: option.split)






text \<open>
  Claim C10. The merge writes the synthetic \<^verbatim>\<open>id\<close> first, then the fields of the uploaded
  row, then \<^verbatim>\<open>predicted_sentiment\<close>. So for every surviving row \<open>i\<close>: when the uploaded
  row has an \<^verbatim>\<open>id\<close> column the merged \<^verbatim>\<open>id\<close> is the uploaded value and not \<open>i + 1\<close> (it is
  \<open>i + 1\<close> when the row has none), while \<^verbatim>\<open>predicted_sentiment\<close> is always \<open>labels[i]\<close>, also
  when the uploaded row has a \<^verbatim>\<open>predicted_sentiment\<close> column.
\<close>

theorem onBatchFile_precedence:
  assumes "batchPredict (map textOf (filter hasText resultsData)) = Some labels"
    and "i < length (filter hasText resultsData)"
  shows "onBatchFile batchPredict resultsData ! i
           = ([''id'' \<mapsto> JNum (int i + 1)] ++ spread (filter hasText resultsData ! i))
               (''predicted_sentiment'' \<mapsto> sentimentAt labels i)
       \<and> (\<forall>v. (filter hasText resultsData ! i) ''id'' = Some v
             \<longrightarrow> (onBatchFile batchPredict resultsData ! i) ''id'' = Some (JStr v)
               \<and> (onBatchFile batchPredict resultsData ! i) ''id'' \<noteq> Some (JNum (int i + 1)))
       \<and> ((filter hasText resultsData ! i) ''id'' = None
             \<longrightarrow> (onBatchFile batchPredict resultsData ! i) ''id'' = Some (JNum (int i + 1)))
       \<and> (onBatchFile batchPredict resultsData ! i) ''predicted_sentiment''
           = Some (sentimentAt labels i)
       \<and> (i < length labels
             \<longrightarrow> (onBatchFile batchPredict resultsData ! i) ''predicted_sentiment''
                   = Some (JStr (labels ! i)))"
proof -
  note n = onBatchFile_nth [where batchPredict = batchPredict and resultsData = resultsData
      and sentiments = labels and i = i, OF assms]
  have a: "onBatchFile batchPredict resultsData ! i
           = ([''id'' \<mapsto> JNum (int i + 1)] ++ spread (filter hasText resultsData ! i))
               (''predicted_sentiment'' \<mapsto> sentimentAt labels i)"
    by (simp only: n mergeRow_def)
  have b: "(onBatchFile batchPredict resultsData ! i) ''id'' = Some (JStr v)
               \<and> (onBatchFile batchPredict resultsData ! i) ''id'' \<noteq> Some (JNum (int i + 1))"
    if "(filter hasText resultsData ! i) ''id'' = Some v" for v
    using that by (simp add: n mergeRow_id)
  have c: "(onBatchFile batchPredict resultsData ! i) ''id'' = Some (JNum (int i + 1))"
    if "(filter hasText resultsData ! i) ''id'' = None"
    using that by (simp add: n mergeRow_id)
  have d: "(onBatchFile batchPredict resultsData ! i) ''predicted_sentiment''
           = Some (sentimentAt labels i)"
    by (simp add: n mergeRow_predicted)
  have e: "(onBatchFile batchPredict resultsData ! i) ''predicted_sentiment''
                   = Some (JStr (labels ! i))" if "i < length labels"
    using that by (simp add: d sentimentAt_def)
  from a b c d e show ?thesis by blast
qed

theorem onBatchFile_precedence_witness:
  "(onBatchFile fixedPredict uploadWithId ! 0) ''id'' = Some (JStr ''7'')
   \<and> (onBatchFile fixedPredict uploadWithId ! 0) ''predicted_sentiment'' = Some (JStr ''Positive'')"
proof -
  have f: "filter hasText uploadWithId =
      [[''text'' \<mapsto> ''hi'', ''id'' \<mapsto> ''7'', ''predicted_sentiment'' \<mapsto> ''old''], [''text'' \<mapsto> ''bye'']]"
    by (simp add: uploadWithId_def hasText_def)
  have h1: "fixedPredict (map textOf (filter hasText uploadWithId)) = Some [''Positive'', ''Negative'']"
    by (simp add: fixedPredict_def)
  have h2: "0 < length (filter hasText uploadWithId)" by (simp add: f)
  note t = onBatchFile_precedence [where batchPredict = fixedPredict and resultsData = uploadWithId
      and labels = "[''Positive'', ''Negative'']" and i = 0, OF h1 h2]
  have u: "(filter hasText uploadWithId ! 0) ''id'' = Some ''7''" by (simp add: f)
  have a: "(onBatchFile fixedPredict uploadWithId ! 0) ''id'' = Some (JStr ''7'')"
    using t [THEN conjunct2, THEN conjunct1, THEN spec, THEN mp, OF u] by (rule conjunct1)
  have l: "0 < length [''Positive'', ''Negative'']" by simp
  have b: "(onBatchFile fixedPredict uploadWithId ! 0) ''predicted_sentiment'' = Some (JStr ''Positive'')"
    using t [THEN conjunct2, THEN conjunct2, THEN conjunct2, THEN conjunct2, THEN mp, OF l] by simp
  from a b show ?thesis by blast
qed

subsection \<open>CSV export\<close>

lemma withoutId_rows:
  "length (map withoutId rows) = length rows
   \<and> (\<forall>i<length rows.
        ''id'' \<notin> dom (map withoutId rows ! i)
      \<and> dom (map withoutId rows ! i) = dom (rows ! i) - {''id''}
      \<and> (\<forall>k. k \<noteq> ''id'' \<longrightarrow> (map withoutId rows ! i) k = (rows ! i) k))"
proof -
  have "''id'' \<notin> dom (map withoutId rows ! i)
      \<and> dom (map withoutId rows ! i) = dom (rows ! i) - {''id''}
      \<and> (\<forall>k. k \<noteq> ''id'' \<longrightarrow> (map withoutId rows ! i) k = (rows ! i) k)"
    if "i < length rows" for i
  proof -
    have n: "map withoutId rows ! i = (rows ! i)(''id'' := None)"
      using that by (simp add: withoutId_def)
    show ?thesis by (simp only: n) simp
  qed
  then show ?thesis by simp
qed

text \<open>
  Claim C7. For every row array handed to the CSV exporter, by the batch-prediction
  download and by the filtered-samples download, the rows passed to the CSV serializer
  are the input rows, in order, each with the \<^verbatim>\<open>id\<close> field removed and every other field
  unchanged; no serialized row has an \<^verbatim>\<open>id\<close> key. (With the identity in place of the
  serializer, a download returns the very array that it passes to the serializer.)
\<close>

theorem export_rows_without_id:
  "downloadCSV unparse batchPredRows = unparse (downloadCSV (\<lambda>rows. rows) batchPredRows)
   \<and> length (downloadCSV (\<lambda>rows. rows) batchPredRows) = length batchPredRows
   \<and> (\<forall>i<length batchPredRows.
        ''id'' \<notin> dom (downloadCSV (\<lambda>rows. rows) batchPredRows ! i)
      \<and> dom (downloadCSV (\<lambda>rows. rows) batchPredRows ! i) = dom (batchPredRows ! i) - {''id''}
      \<and> (\<forall>k. k \<noteq> ''id'' \<longrightarrow>
            (downloadCSV (\<lambda>rows. rows) batchPredRows ! i) k = (batchPredRows ! i) k))
   \<and> downloadFilteredSamplesCsv unparse sampleRows localSearch
       = unparse (downloadFilteredSamplesCsv (\<lambda>rows. rows) sampleRows localSearch)
   \<and> length (downloadFilteredSamplesCsv (\<lambda>rows. rows) sampleRows localSearch)
       = length (filteredSampleRows sampleRows localSearch)
   \<and> (\<forall>i<length (filteredSampleRows sampleRows localSearch).
        ''id'' \<notin> dom (downloadFilteredSamplesCsv (\<lambda>rows. rows) sampleRows localSearch ! i)
      \<and> dom (downloadFilteredSamplesCsv (\<lambda>rows. rows) sampleRows localSearch ! i)
          = dom (filteredSampleRows sampleRows localSearch ! i) - {''id''}
      \<and> (\<forall>k. k \<noteq> ''id'' \<longrightarrow>
            (downloadFilteredSamplesCsv (\<lambda>rows. rows) sampleRows localSearch ! i) k
              = (filteredSampleRows sampleRows localSearch ! i) k))"
proof -
  have a: "downloadCSV unparse batchPredRows = unparse (downloadCSV (\<lambda>rows. rows) batchPredRows)"
    by (simp add: downloadCSV_def)
  have b: "downloadFilteredSamplesCsv unparse sampleRows localSearch
       = unparse (downloadFilteredSamplesCsv (\<lambda>rows. rows) sampleRows localSearch)"
    by (simp add: downloadFilteredSamplesCsv_def)
  have c: "downloadCSV (\<lambda>rows. rows) batchPredRows = map withoutId batchPredRows"
    by (simp add: downloadCSV_def)
  have d: "downloadFilteredSamplesCsv (\<lambda>rows. rows) sampleRows localSearch
       = map withoutId (filteredSampleRows sampleRows localSearch)"
    by (simp add: downloadFilteredSamplesCsv_def)
  note w1 = withoutId_rows [of batchPredRows, folded c]
  note w2 = withoutId_rows [of "filteredSampleRows sampleRows localSearch", folded d]
  from a b w1 w2 show ?thesis by (intro conjI) (elim conjE, assumption)+
qed

theorem export_rows_without_id_witness:
  "downloadCSV (\<lambda>rows. rows) [sampleZero, sampleOne] = [withoutId sampleZero, withoutId sampleOne]
   \<and> (downloadCSV (\<lambda>rows. rows) [sampleZero, sampleOne] ! 1) ''id'' = None
   \<and> (downloadCSV (\<lambda>rows. rows) [sampleZero, sampleOne] ! 1) ''tweet_id'' = Some (JNum 2401)"
proof -
  note t = export_rows_without_id [where unparse = "\<lambda>rows. rows"
      and batchPredRows = "[sampleZero, sampleOne]" and sampleRows = "[]" and localSearch = "[]"]
  have i: "1 < length [sampleZero, sampleOne]" by simp
  note row = t [THEN conjunct2, THEN conjunct2, THEN conjunct1, THEN spec, THEN mp, OF i]
  have a: "downloadCSV (\<lambda>rows. rows) [sampleZero, sampleOne] = [withoutId sampleZero, withoutId sampleOne]"
    by (simp add: downloadCSV_def)
  have b: "(downloadCSV (\<lambda>rows. rows) [sampleZero, sampleOne] ! 1) ''id'' = None"
    using row [THEN conjunct1] by (simp only: domIff) simp
  have k: "''tweet_id'' \<noteq> ''id''" by simp
  have "(downloadCSV (\<lambda>rows. rows) [sampleZero, sampleOne] ! 1) ''tweet_id''
      = ([sampleZero, sampleOne] ! 1) ''tweet_id''"
    using row [THEN conjunct2, THEN conjunct2, THEN spec, THEN mp, OF k] .
  then have c: "(downloadCSV (\<lambda>rows. rows) [sampleZero, sampleOne] ! 1) ''tweet_id'' = Some (JNum 2401)"
    by (simp add: sampleOne_def)
  from a b c show ?thesis by blast
qed

end
